theory Spec2Isabelle
  imports Main "HOL-Library.Multiset"
begin

section \<open>Python strings\<close>

text \<open>
  Text is a list of characters (code points below 256).  The whitespace of
  \<^verbatim>\<open>str.strip()\<close> is that of \<^verbatim>\<open>str.isspace()\<close> in this range: tab, line feed,
  vertical tab, form feed, carriage return, the separators 0x1c-0x1f, space, 0x85 and
  0xa0.
\<close>

definition py_space :: "char \<Rightarrow> bool" where
  "py_space c = (of_char c \<in> {9, 10, 11, 12, 13, 28, 29, 30, 31, 32, 133, 160 :: nat})"

definition lstrip :: "string \<Rightarrow> string" where
  "lstrip s = dropWhile py_space s"

definition rstrip :: "string \<Rightarrow> string" where
  "rstrip s = rev (dropWhile py_space (rev s))"

definition strip :: "string \<Rightarrow> string" where
  "strip s = rstrip (lstrip s)"

definition startswith :: "string \<Rightarrow> string \<Rightarrow> bool" where
  "startswith s p = (take (length p) s = p)"

text \<open>\<^verbatim>\<open>s.find(p)\<close>: the least index at which \<open>p\<close> occurs in \<open>s\<close>, \<open>None\<close> for -1.\<close>

fun find_sub :: "string \<Rightarrow> string \<Rightarrow> nat option" where
  "find_sub p [] = (if p = [] then Some 0 else None)"
| "find_sub p (c # cs) =
     (if startswith (c # cs) p then Some 0 else map_option Suc (find_sub p cs))"

section \<open>categorize-changes.py: parse_file_changes\<close>

record file_changes =
  added :: "string list"
  modified :: "string list"
  deleted :: "string list"

definition no_changes :: file_changes where
  "no_changes = \<lparr>added = [], modified = [], deleted = []\<rparr>"

text \<open>
  The body of the loop over the lines of the file: the line is stripped, an empty line
  is skipped, the status is the first character and the path is what follows the
  second character, stripped.
\<close>

definition line_status :: "string \<Rightarrow> char option" where
  "line_status l = (case strip l of [] \<Rightarrow> None | c # _ \<Rightarrow> Some c)"

definition line_path :: "string \<Rightarrow> string" where
  "line_path l = strip (drop 2 (strip l))"

definition parse_line :: "file_changes \<Rightarrow> string \<Rightarrow> file_changes" where
  "parse_line r l0 =
     (let l = strip l0 in
      if l = [] then r
      else
        let status = hd l; filepath_str = strip (drop 2 l) in
        if status = CHR ''A'' then r\<lparr>added := added r @ [filepath_str]\<rparr>
        else if status = CHR ''M'' then r\<lparr>modified := modified r @ [filepath_str]\<rparr>
        else if status = CHR ''D'' then r\<lparr>deleted := deleted r @ [filepath_str]\<rparr>
        else r)"

definition parse_file_changes :: "string list \<Rightarrow> file_changes" where
  "parse_file_changes ls = foldl parse_line no_changes ls"

section \<open>categorize-changes.py: categorize_files\<close>

text \<open>
  A Python dict keeps its keys in insertion order; storing under a key that is present
  replaces the value in place.
\<close>

fun dict_set :: "('k \<times> 'v) list \<Rightarrow> 'k \<Rightarrow> 'v \<Rightarrow> ('k \<times> 'v) list" where
  "dict_set [] k v = [(k, v)]"
| "dict_set ((k', v') # kvs) k v =
     (if k' = k then (k', v) # kvs else (k', v') # dict_set kvs k v)"

text \<open>
  The three optional diff sets are \<open>None\<close> when the dict handed over is empty or
  absent (it is then falsy), and the parsed file otherwise.  \<open>sel\<close> is the list the
  loop reads: added, modified or deleted.
\<close>

definition comparisons_of ::
  "(file_changes \<Rightarrow> string list) \<Rightarrow> string \<Rightarrow>
   file_changes option \<Rightarrow> file_changes option \<Rightarrow> file_changes option \<Rightarrow> string list" where
  "comparisons_of sel filepath diff_set_1 diff_set_2 diff_set_3 =
     (let comparisons =
        (case diff_set_1 of None \<Rightarrow> []
         | Some d \<Rightarrow> if filepath \<in> set (sel d) then [''v10_upstream_vs_v10_custom''] else []) @
        (case diff_set_2 of None \<Rightarrow> []
         | Some d \<Rightarrow> if filepath \<in> set (sel d) then [''v10_custom_vs_v15_upstream''] else []) @
        (case diff_set_3 of None \<Rightarrow> []
         | Some d \<Rightarrow> if filepath \<in> set (sel d) then [''v10_upstream_vs_v15_upstream''] else [])
      in if comparisons = [] then [''v10_upstream_vs_v10_custom''] else comparisons)"

subsection \<open>Added paths\<close>

text \<open>
  The entry of an added file; its two display fields (type and description), which
  come from pathlib and which nothing downstream classifies on, are left out.
\<close>

record added_info =
  a_path :: string
  a_comparisons :: "string list"

definition custom_bucket :: "string \<Rightarrow> string" where
  "custom_bucket filepath =
     (if startswith filepath ''assets/'' then ''assets''
      else if startswith filepath ''snippets/'' then ''snippets''
      else if startswith filepath ''templates/'' then ''templates''
      else if startswith filepath ''sections/'' then ''sections''
      else if startswith filepath ''layout/'' then ''layout''
      else ''other'')"

definition no_custom_files :: "(string \<times> added_info list) list" where
  "no_custom_files =
     [(''assets'', []), (''snippets'', []), (''templates'', []), (''sections'', []),
      (''layout'', []), (''other'', [])]"

definition categorize_added ::
  "file_changes option \<Rightarrow> file_changes option \<Rightarrow> file_changes option \<Rightarrow>
   string list \<Rightarrow> (string \<times> added_info list) list" where
  "categorize_added d1 d2 d3 paths =
     foldl (\<lambda>custom_files filepath.
        let file_info = \<lparr>a_path = filepath,
                          a_comparisons = comparisons_of added filepath d1 d2 d3\<rparr>
        in map (\<lambda>(b, fs). if b = custom_bucket filepath then (b, fs @ [file_info]) else (b, fs))
             custom_files)
       no_custom_files paths"

subsection \<open>Modified paths\<close>

record change =
  c_line :: int
  c_type :: string
  c_content :: string

record modified_info =
  m_path :: string
  m_changes :: "change list"
  m_integration_points :: "string list"
  m_revert_to_clean :: bool
  m_reason :: "string option"
  m_comparisons :: "string list"

definition revert_to_clean_rule :: "string \<Rightarrow> bool" where
  "revert_to_clean_rule filepath =
     (if startswith filepath ''locales/'' \<and> \<not> startswith filepath ''locales/en.'' then True
      else if filepath = ''README.md'' then True
      else False)"

definition modified_entry ::
  "file_changes option \<Rightarrow> file_changes option \<Rightarrow> file_changes option \<Rightarrow>
   string \<Rightarrow> modified_info" where
  "modified_entry d1 d2 d3 filepath =
     (let revert_to_clean = revert_to_clean_rule filepath;
          comparisons = comparisons_of modified filepath d1 d2 d3;
          reason =
            (if revert_to_clean then
               if filepath = ''README.md''
               then Some ''Accept Dawn 15.4.0 version (revert our customizations)''
               else Some ''Non-English locale - custom features only support English''
             else None)
      in \<lparr>m_path = filepath, m_changes = [], m_integration_points = [],
          m_revert_to_clean = revert_to_clean, m_reason = reason,
          m_comparisons = comparisons\<rparr>)"

definition categorize_modified ::
  "file_changes option \<Rightarrow> file_changes option \<Rightarrow> file_changes option \<Rightarrow>
   string list \<Rightarrow> (string \<times> modified_info) list" where
  "categorize_modified d1 d2 d3 paths =
     foldl (\<lambda>modified_dawn_files filepath.
        dict_set modified_dawn_files filepath (modified_entry d1 d2 d3 filepath)) [] paths"

subsection \<open>Deleted paths\<close>

definition dev_config_files :: "string list" where
  "dev_config_files =
     [''.github/'', ''.gitignore'', ''.prettierrc.json'', ''.theme-check.yml'',
      ''.vscode/'', ''LICENSE.md'', ''release-notes.md'', ''translation.yml'']"

definition is_dev_config :: "string \<Rightarrow> bool" where
  "is_dev_config filepath =
     list_ex (\<lambda>pattern. startswith filepath pattern \<or> filepath = pattern) dev_config_files"

text \<open>
  The three regular-expression searches over the text of the full diff, written out
  as string functions.  \<open>tails\<close> lists the positions a search can start at;
  \<open>line_starts\<close> lists the positions where \<^verbatim>\<open>^\<close> matches under MULTILINE: the
  start of the text and the position after every line feed.
\<close>

definition newline :: char where
  "newline = CHR 0x0A"

fun tails :: "string \<Rightarrow> string list" where
  "tails [] = [[]]"
| "tails (c # cs) = (c # cs) # tails cs"

fun after_newlines :: "string \<Rightarrow> string list" where
  "after_newlines [] = []"
| "after_newlines (c # cs) = (if c = newline then [cs] else []) @ after_newlines cs"

definition line_starts :: "string \<Rightarrow> string list" where
  "line_starts s = s # after_newlines s"

text \<open>
  \<^verbatim>\<open>.*P\<close> matched at the head of the text, without DOTALL: the dot takes any
  character but a line feed.
\<close>

fun dotstar_then :: "string \<Rightarrow> string \<Rightarrow> bool" where
  "dotstar_then p [] = (p = [])"
| "dotstar_then p (c # cs) = (startswith (c # cs) p \<or> (c \<noteq> newline \<and> dotstar_then p cs))"

text \<open>
  \<^verbatim>\<open>re.search(rf'diff --git.*{P}|^--- a/{P}|^\+\+\+ b/{P}', content, re.MULTILINE)\<close>
  with \<open>P\<close> the escaped path: is there a match at all.
\<close>

definition mentions_file :: "string \<Rightarrow> string \<Rightarrow> bool" where
  "mentions_file filepath content =
     (list_ex (\<lambda>t. startswith t ''diff --git'' \<and> dotstar_then filepath (drop 10 t))
        (tails content) \<or>
      list_ex (\<lambda>t. startswith t (''--- a/'' @ filepath)) (line_starts content) \<or>
      list_ex (\<lambda>t. startswith t (''+++ b/'' @ filepath)) (line_starts content))"

text \<open>
  \<^verbatim>\<open>re.search(rf'(diff --git.*?{P}.*?)(?=diff --git|\Z)', content, re.DOTALL)\<close>,
  group 1.  Under DOTALL the lazy \<^verbatim>\<open>.*?\<close> crosses line feeds, so the match starts at
  the leftmost \<^verbatim>\<open>diff --git\<close> of the whole text that has the path anywhere after
  it (the first one, when any has), runs to the first occurrence of the path after
  that header, and on to the next \<^verbatim>\<open>diff --git\<close> or to the end of the text.
\<close>

definition diff_section :: "string \<Rightarrow> string \<Rightarrow> string option" where
  "diff_section filepath content =
     (case find_sub ''diff --git'' content of
        None \<Rightarrow> None
      | Some i \<Rightarrow>
          let t = drop (i + 10) content in
          (case find_sub filepath t of
             None \<Rightarrow> None
           | Some j \<Rightarrow>
               let u = drop (j + length filepath) t;
                   k = (case find_sub ''diff --git'' u of None \<Rightarrow> length u | Some k \<Rightarrow> k)
               in Some (take (10 + j + length filepath + k) (drop i content))))"

text \<open>\<^verbatim>\<open>re.search(r'^\+[^+]', section, re.MULTILINE)\<close>: is there a match.\<close>

definition has_added_line :: "string \<Rightarrow> bool" where
  "has_added_line section =
     list_ex (\<lambda>t. case t of c1 # c2 # _ \<Rightarrow> c1 = CHR ''+'' \<and> c2 \<noteq> CHR ''+'' | _ \<Rightarrow> False)
       (line_starts section)"

record removed_info =
  r_path :: string
  should_restore :: bool
  accept_dawn_15_4 :: bool
  has_customizations :: bool
  r_description :: string
  r_comparisons :: "string list"

text \<open>
  \<open>full_diff_content\<close> is the text of the full diff, empty when no path was given or
  the file does not exist.
\<close>

definition removed_entry ::
  "string \<Rightarrow> file_changes option \<Rightarrow> file_changes option \<Rightarrow> file_changes option \<Rightarrow>
   string \<Rightarrow> removed_info" where
  "removed_entry full_diff_content d1 d2 d3 filepath =
     (let is_dev = is_dev_config filepath;
          has_cust =
            (if is_dev \<and> full_diff_content \<noteq> [] then
               if mentions_file filepath full_diff_content then
                 (case diff_section filepath full_diff_content of
                    None \<Rightarrow> False
                  | Some section \<Rightarrow> has_added_line section)
               else False
             else False);
          comparisons = comparisons_of deleted filepath d1 d2 d3
      in \<lparr>r_path = filepath,
          should_restore = (\<not> is_dev),
          accept_dawn_15_4 = is_dev,
          has_customizations = (if is_dev then has_cust else False),
          r_description =
            (if is_dev
             then ''Accept Dawn 15.4.0 version'' @
                  (if has_cust then '' (patch with customizations)'' else [])
             else ''Should restore'') @ '' Dawn file: '' @ filepath,
          r_comparisons = comparisons\<rparr>)"

definition categorize_deleted ::
  "string \<Rightarrow> file_changes option \<Rightarrow> file_changes option \<Rightarrow> file_changes option \<Rightarrow>
   string list \<Rightarrow> removed_info list" where
  "categorize_deleted full_diff_content d1 d2 d3 paths =
     foldl (\<lambda>removed_dawn_files filepath.
        removed_dawn_files @ [removed_entry full_diff_content d1 d2 d3 filepath]) [] paths"

record categorized =
  custom_files :: "(string \<times> added_info list) list"
  modified_dawn_files :: "(string \<times> modified_info) list"
  removed_dawn_files :: "removed_info list"

definition categorize_files ::
  "file_changes \<Rightarrow> string \<Rightarrow> file_changes option \<Rightarrow> file_changes option \<Rightarrow>
   file_changes option \<Rightarrow> categorized" where
  "categorize_files fc full_diff_content d1 d2 d3 =
     \<lparr>custom_files = categorize_added d1 d2 d3 (added fc),
      modified_dawn_files = categorize_modified d1 d2 d3 (modified fc),
      removed_dawn_files = categorize_deleted full_diff_content d1 d2 d3 (deleted fc)\<rparr>"

section \<open>categorize-changes.py: main\<close>

text \<open>
  \<open>main\<close> from the categorised files on.  \<open>full_diff\<close> is what
  \<^verbatim>\<open>parse_diff_patch\<close> returned for the full diff (path to changes) and \<open>eip\<close> is
  \<^verbatim>\<open>extract_integration_points\<close>; both only fill in the two detail fields of a
  modified file.
\<close>

definition enhance ::
  "(string \<Rightarrow> change list option) \<Rightarrow> (string \<Rightarrow> change list \<Rightarrow> string list) \<Rightarrow>
   categorized \<Rightarrow> categorized" where
  "enhance full_diff eip cat =
     cat\<lparr>modified_dawn_files :=
       map (\<lambda>(filepath, file_info).
          case full_diff filepath of
            None \<Rightarrow> (filepath, file_info)
          | Some cs \<Rightarrow> (filepath, file_info\<lparr>m_changes := cs,
                                   m_integration_points := eip filepath cs\<rparr>))
         (modified_dawn_files cat)\<rparr>"

record validation =
  modified_equals_revert_plus_patch :: bool
  removed_equals_restore_plus_accept :: bool

record summary =
  custom_files_count :: nat
  modified_dawn_files_count :: nat
  removed_dawn_files_count :: nat
  files_to_revert_count :: nat
  files_to_patch_modified_count :: nat
  files_to_restore_count :: nat
  files_to_accept_dawn_15_4_count :: nat
  files_to_patch_deleted_count :: nat
  validation_flags :: validation

record main_result =
  res_categorized :: categorized
  files_to_revert_to_clean :: "string list"
  files_to_patch_modified :: "string list"
  files_to_restore_from_dawn :: "string list"
  files_to_accept_dawn_15_4 :: "string list"
  files_to_patch_with_customizations :: "string list"
  res_summary :: summary

text \<open>The one warning \<open>main\<close> prints, with the three counts it shows.\<close>

datatype warning = Modified_dont_add_up nat nat nat

definition combine_results :: "categorized \<Rightarrow> warning list \<times> main_result" where
  "combine_results cat =
     (let files_to_revert =
            map fst (filter (\<lambda>(f, info). m_revert_to_clean info) (modified_dawn_files cat));
          files_to_patch_mod =
            map fst (filter (\<lambda>(f, info). \<not> m_revert_to_clean info) (modified_dawn_files cat));
          files_to_restore = map r_path (filter should_restore (removed_dawn_files cat));
          files_to_accept = map r_path (filter accept_dawn_15_4 (removed_dawn_files cat));
          files_to_patch_deleted =
            map r_path (filter (\<lambda>f. accept_dawn_15_4 f \<and> has_customizations f)
              (removed_dawn_files cat));
          total_modified = length (modified_dawn_files cat);
          total_to_revert = length files_to_revert;
          total_to_patch_modified = length files_to_patch_mod;
          printed =
            (if total_modified \<noteq> total_to_revert + total_to_patch_modified
             then [Modified_dont_add_up total_modified total_to_revert total_to_patch_modified]
             else [])
      in (printed,
          \<lparr>res_categorized = cat,
           files_to_revert_to_clean = files_to_revert,
           files_to_patch_modified = files_to_patch_mod,
           files_to_restore_from_dawn = files_to_restore,
           files_to_accept_dawn_15_4 = files_to_accept,
           files_to_patch_with_customizations = files_to_patch_deleted,
           res_summary =
             \<lparr>custom_files_count = sum_list (map (\<lambda>(b, files). length files) (custom_files cat)),
              modified_dawn_files_count = total_modified,
              removed_dawn_files_count = length (removed_dawn_files cat),
              files_to_revert_count = total_to_revert,
              files_to_patch_modified_count = total_to_patch_modified,
              files_to_restore_count = length files_to_restore,
              files_to_accept_dawn_15_4_count = length files_to_accept,
              files_to_patch_deleted_count = length files_to_patch_deleted,
              validation_flags =
                \<lparr>modified_equals_revert_plus_patch =
                   (total_modified = total_to_revert + total_to_patch_modified),
                 removed_equals_restore_plus_accept =
                   (length (removed_dawn_files cat)
                      = length files_to_restore + length files_to_accept)\<rparr>\<rparr>\<rparr>))"

definition categorize_main ::
  "file_changes \<Rightarrow> string \<Rightarrow> file_changes option \<Rightarrow> file_changes option \<Rightarrow>
   file_changes option \<Rightarrow> (string \<Rightarrow> change list option) \<Rightarrow>
   (string \<Rightarrow> change list \<Rightarrow> string list) \<Rightarrow> warning list \<times> main_result" where
  "categorize_main fc full_diff_content d1 d2 d3 full_diff eip =
     combine_results (enhance full_diff eip (categorize_files fc full_diff_content d1 d2 d3))"

section \<open>JSON values and Python primitives\<close>

text \<open>
  What \<^verbatim>\<open>json.loads\<close> returns: \<open>None\<close>, a bool, a number (integers only here;
  no claim depends on floats), a str, a list, or a dict with str keys in insertion
  order.
\<close>

datatype json =
    JNull
  | JBool bool
  | JNum int
  | JStr string
  | JArr "json list"
  | JObj "(string \<times> json) list"

datatype py_error =
    FileNotFoundError
  | AttributeError
  | TypeError
  | KeyError
  | JSONDecodeError
  | ModuleNotFoundError

text \<open>
  Python's \<^verbatim>\<open>==\<close> on such values: \<open>True\<close> equals 1 and \<open>False\<close> equals 0, lists
  are equal elementwise, dicts are equal when they have the same keys with equal
  values, whatever the order.
\<close>

fun py_eq :: "json \<Rightarrow> json \<Rightarrow> bool"
  and py_eq_list :: "json list \<Rightarrow> json list \<Rightarrow> bool"
  and py_eq_items :: "(string \<times> json) list \<Rightarrow> (string \<times> json) list \<Rightarrow> bool" where
  "py_eq JNull b = (b = JNull)"
| "py_eq (JBool a) b =
     (case b of JBool c \<Rightarrow> a = c | JNum n \<Rightarrow> n = (if a then 1 else 0) | _ \<Rightarrow> False)"
| "py_eq (JNum m) b =
     (case b of JBool c \<Rightarrow> m = (if c then 1 else 0) | JNum n \<Rightarrow> m = n | _ \<Rightarrow> False)"
| "py_eq (JStr s) b = (case b of JStr t \<Rightarrow> s = t | _ \<Rightarrow> False)"
| "py_eq (JArr xs) b = (case b of JArr ys \<Rightarrow> py_eq_list xs ys | _ \<Rightarrow> False)"
| "py_eq (JObj xs) b =
     (case b of JObj ys \<Rightarrow> length xs = length ys \<and> py_eq_items xs ys | _ \<Rightarrow> False)"
| "py_eq_list [] ys = (ys = [])"
| "py_eq_list (x # xs) ys =
     (case ys of [] \<Rightarrow> False | y # ys' \<Rightarrow> py_eq x y \<and> py_eq_list xs ys')"
| "py_eq_items [] ys = True"
| "py_eq_items ((k, v) # xs) ys =
     ((case map_of ys k of None \<Rightarrow> False | Some w \<Rightarrow> py_eq v w) \<and> py_eq_items xs ys)"

text \<open>Truth value of an object, as \<^verbatim>\<open>if x:\<close> tests it.\<close>

fun truthy :: "json \<Rightarrow> bool" where
  "truthy JNull = False"
| "truthy (JBool b) = b"
| "truthy (JNum n) = (n \<noteq> 0)"
| "truthy (JStr s) = (s \<noteq> [])"
| "truthy (JArr xs) = (xs \<noteq> [])"
| "truthy (JObj kvs) = (kvs \<noteq> [])"

text \<open>
  \<^verbatim>\<open>x.get(k, default)\<close>: only a dict has \<^verbatim>\<open>get\<close>; on anything else the attribute
  lookup raises.
\<close>

fun py_get :: "json \<Rightarrow> string \<Rightarrow> json \<Rightarrow> py_error + json" where
  "py_get (JObj kvs) k dflt = Inr (case map_of kvs k of None \<Rightarrow> dflt | Some v \<Rightarrow> v)"
| "py_get _ k dflt = Inl AttributeError"

text \<open>Sequencing of steps that may raise: the first exception ends the run.\<close>

definition bind_r :: "py_error + 'a \<Rightarrow> ('a \<Rightarrow> py_error + 'b) \<Rightarrow> py_error + 'b" where
  "bind_r r f = (case r of Inl e \<Rightarrow> Inl e | Inr v \<Rightarrow> f v)"

section \<open>analyze-all-json-diffs.py: load_json\<close>


section \<open>analyze-all-json-diffs.py: analyze_locale and analyze_settings_data\<close>

text \<open>
  Both take three dicts and return three pairs of lists of records; a record is the
  dict the source appends, kept as a JSON object.
\<close>

record flat_result =
  custom_additions :: "json list"
  modifications :: "json list"
  dawn_additions :: "json list"
  dawn_modifications :: "json list"
  conflict_additions :: "json list"
  conflict_modifications :: "json list"

definition addition_record :: "string \<Rightarrow> string \<Rightarrow> string \<Rightarrow> json \<Rightarrow> json" where
  "addition_record comparison text key v =
     JObj [(''key'', JStr key), (''value'', v), (''comparison'', JStr comparison),
           (''description'', JStr (text @ key))]"

definition modification_record ::
  "string \<Rightarrow> string \<Rightarrow> string \<Rightarrow> string \<Rightarrow> string \<Rightarrow> json \<Rightarrow> json \<Rightarrow> json" where
  "modification_record comparison old_name new_name text key old new =
     JObj [(''key'', JStr key), (old_name, old), (new_name, new),
           (''comparison'', JStr comparison), (''description'', JStr (text @ key))]"

definition conflict_addition_record :: "string \<Rightarrow> string \<Rightarrow> string \<Rightarrow> json \<Rightarrow> json" where
  "conflict_addition_record text1 text2 key v =
     JObj [(''key'', JStr key), (''value'', v),
           (''comparison'', JStr ''v10_custom_vs_v15_upstream''),
           (''description'', JStr (text1 @ key @ text2))]"

text \<open>
  One pass of a loop \<^verbatim>\<open>for key, value in compare.items()\<close>: the state is the pair of
  lists the loop appends to.  \<open>keep_add\<close> and \<open>keep_mod\<close> are the inner conditions
  (always true where the source has none).
\<close>

definition flat_step ::
  "(string \<times> json) list \<Rightarrow> (string \<Rightarrow> bool) \<Rightarrow> (string \<Rightarrow> json \<Rightarrow> bool) \<Rightarrow>
   (string \<Rightarrow> json \<Rightarrow> json) \<Rightarrow> (string \<Rightarrow> json \<Rightarrow> json \<Rightarrow> json) \<Rightarrow>
   json list \<times> json list \<Rightarrow> string \<times> json \<Rightarrow> json list \<times> json list" where
  "flat_step base keep_add keep_mod mk_add mk_mod acc kv =
     (case (acc, kv) of ((adds, mods), (key, v)) \<Rightarrow>
        (case map_of base key of
           None \<Rightarrow> if keep_add key then (adds @ [mk_add key v], mods) else (adds, mods)
         | Some old \<Rightarrow>
             if \<not> py_eq old v
             then (if keep_mod key v then (adds, mods @ [mk_mod key old v]) else (adds, mods))
             else (adds, mods)))"

definition flat_loop ::
  "(string \<times> json) list \<Rightarrow> (string \<times> json) list \<Rightarrow> (string \<Rightarrow> bool) \<Rightarrow>
   (string \<Rightarrow> json \<Rightarrow> bool) \<Rightarrow> (string \<Rightarrow> json \<Rightarrow> json) \<Rightarrow>
   (string \<Rightarrow> json \<Rightarrow> json \<Rightarrow> json) \<Rightarrow> json list \<times> json list" where
  "flat_loop base compare keep_add keep_mod mk_add mk_mod =
     foldl (flat_step base keep_add keep_mod mk_add mk_mod) ([], []) compare"

definition analyze_locale ::
  "(string \<times> json) list \<Rightarrow> (string \<times> json) list \<Rightarrow> (string \<times> json) list \<Rightarrow> flat_result" where
  "analyze_locale dawn_v10 current dawn_v15 =
     (let c1 = flat_loop dawn_v10 current
                 (\<lambda>key. startswith key ''custom_'') (\<lambda>key v. True)
                 (addition_record ''v10_upstream_vs_v10_custom'' ''Custom translation key: '')
                 (modification_record ''v10_upstream_vs_v10_custom'' ''old_value'' ''new_value''
                    ''Modified translation: '');
          c2 = flat_loop dawn_v10 dawn_v15 (\<lambda>key. True) (\<lambda>key v. True)
                 (addition_record ''v10_upstream_vs_v15_upstream''
                    ''Dawn 15.4.0 added translation key: '')
                 (modification_record ''v10_upstream_vs_v15_upstream'' ''old_value'' ''new_value''
                    ''Dawn 15.4.0 modified translation: '');
          c3 = flat_loop current dawn_v15 (\<lambda>key. True) (\<lambda>key v. True)
                 (conflict_addition_record ''Conflict: Dawn 15.4.0 has translation key ''
                    '' that we don't have'')
                 (modification_record ''v10_custom_vs_v15_upstream'' ''our_value'' ''dawn_value''
                    ''Conflict: Both we and Dawn 15.4.0 modified translation '')
      in \<lparr>custom_additions = fst c1, modifications = snd c1,
          dawn_additions = fst c2, dawn_modifications = snd c2,
          conflict_additions = fst c3, conflict_modifications = snd c3\<rparr>)"

fun is_container :: "json \<Rightarrow> bool" where
  "is_container (JArr xs) = True"
| "is_container (JObj kvs) = True"
| "is_container _ = False"

definition analyze_settings_data ::
  "(string \<times> json) list \<Rightarrow> (string \<times> json) list \<Rightarrow> (string \<times> json) list \<Rightarrow> flat_result" where
  "analyze_settings_data dawn_v10 current dawn_v15 =
     (let c1 = flat_loop dawn_v10 current
                 (\<lambda>key. startswith key ''custom_'')
                 (\<lambda>key v. startswith key ''custom_'' \<or> is_container v)
                 (addition_record ''v10_upstream_vs_v10_custom'' ''Custom setting value: '')
                 (modification_record ''v10_upstream_vs_v10_custom'' ''old_value'' ''new_value''
                    ''Modified setting value: '');
          c2 = flat_loop dawn_v10 dawn_v15 (\<lambda>key. True) (\<lambda>key v. True)
                 (addition_record ''v10_upstream_vs_v15_upstream''
                    ''Dawn 15.4.0 added setting value: '')
                 (modification_record ''v10_upstream_vs_v15_upstream'' ''old_value'' ''new_value''
                    ''Dawn 15.4.0 modified setting value: '');
          c3 = flat_loop current dawn_v15 (\<lambda>key. True) (\<lambda>key v. True)
                 (conflict_addition_record ''Conflict: Dawn 15.4.0 has setting value ''
                    '' that we don't have'')
                 (modification_record ''v10_custom_vs_v15_upstream'' ''our_value'' ''dawn_value''
                    ''Conflict: Both we and Dawn 15.4.0 modified setting value '')
      in \<lparr>custom_additions = fst c1, modifications = snd c1,
          dawn_additions = fst c2, dawn_modifications = snd c2,
          conflict_additions = fst c3, conflict_modifications = snd c3\<rparr>)"

section \<open>analyze-all-json-diffs.py: analyze_settings_schema\<close>

text \<open>
  What the function takes from outside the repository: how an f-string renders a
  value (\<^verbatim>\<open>str\<close>), the deep-diff library (\<open>None\<close> for an empty diff, else the
  text of \<^verbatim>\<open>str(diff)\<close>), and the order in which the interpreter iterates a set of
  keys, which for str keys depends on the hash seed of the process.
\<close>

record py_env =
  py_str :: "json \<Rightarrow> string"
  deep_diff :: "json \<Rightarrow> json \<Rightarrow> string option"
  set_iter :: "json list \<Rightarrow> json list"

text \<open>A loop over a list whose body may raise: the results in order, or the first exception.\<close>

fun mapM_r :: "('a \<Rightarrow> py_error + 'b) \<Rightarrow> 'a list \<Rightarrow> py_error + 'b list" where
  "mapM_r f [] = Inr []"
| "mapM_r f (x # xs) = bind_r (f x) (\<lambda>y. bind_r (mapM_r f xs) (\<lambda>ys. Inr (y # ys)))"

fun foldl_r :: "('s \<Rightarrow> 'a \<Rightarrow> py_error + 's) \<Rightarrow> 's \<Rightarrow> 'a list \<Rightarrow> py_error + 's" where
  "foldl_r f s [] = Inr s"
| "foldl_r f s (x # xs) = bind_r (f s x) (\<lambda>s'. foldl_r f s' xs)"

text \<open>
  Dicts keyed by section name or setting id.  A key must be hashable (a list or a dict
  is not); keys are compared with \<^verbatim>\<open>==\<close>; storing under a key that is present keeps
  the key and its place.  \<open>jdict_item\<close> is \<^verbatim>\<open>d[k]\<close>.
\<close>

fun hashable :: "json \<Rightarrow> bool" where
  "hashable (JArr xs) = False"
| "hashable (JObj kvs) = False"
| "hashable _ = True"

fun jdict_get :: "(json \<times> 'v) list \<Rightarrow> json \<Rightarrow> 'v option" where
  "jdict_get [] k = None"
| "jdict_get ((k', v) # kvs) k = (if py_eq k' k then Some v else jdict_get kvs k)"

fun jdict_set :: "(json \<times> 'v) list \<Rightarrow> json \<Rightarrow> 'v \<Rightarrow> (json \<times> 'v) list" where
  "jdict_set [] k v = [(k, v)]"
| "jdict_set ((k', v') # kvs) k v =
     (if py_eq k' k then (k', v) # kvs else (k', v') # jdict_set kvs k v)"

definition jdict_item :: "(json \<times> 'v) list \<Rightarrow> json \<Rightarrow> py_error + 'v" where
  "jdict_item d k = (case jdict_get d k of None \<Rightarrow> Inl KeyError | Some v \<Rightarrow> Inr v)"

text \<open>
  \<^verbatim>\<open>a.keys() & b.keys()\<close>: CPython walks the keys of the smaller dict (of \<open>b\<close> when
  they have the same size) and keeps those the other dict contains.  The result is a
  set; \<open>set_iter\<close> gives the order in which a loop over it sees them.
\<close>

definition keys_and :: "(json \<times> 'v) list \<Rightarrow> (json \<times> 'v) list \<Rightarrow> json list" where
  "keys_and a b =
     (if length b > length a
      then filter (\<lambda>k. jdict_get b k \<noteq> None) (map fst a)
      else filter (\<lambda>k. jdict_get a k \<noteq> None) (map fst b))"

text \<open>\<^verbatim>\<open>for x in v\<close>: a list gives its elements, a dict its keys, a str its characters.\<close>

fun py_iter :: "json \<Rightarrow> py_error + json list" where
  "py_iter (JArr xs) = Inr xs"
| "py_iter (JObj kvs) = Inr (map (\<lambda>(k, v). JStr k) kvs)"
| "py_iter (JStr s) = Inr (map (\<lambda>c. JStr [c]) s)"
| "py_iter _ = Inl TypeError"

text \<open>\<^verbatim>\<open>next((item for item in xs if item.get('name') == 'theme_info'), {})\<close>\<close>

fun find_theme_info :: "json list \<Rightarrow> py_error + json" where
  "find_theme_info [] = Inr (JObj [])"
| "find_theme_info (item # items) =
     bind_r (py_get item ''name'' JNull) (\<lambda>name.
       if py_eq name (JStr ''theme_info'') then Inr item else find_theme_info items)"

text \<open>\<^verbatim>\<open>{item.get('name'): item for item in xs if item.get('name') != 'theme_info'}\<close>\<close>

definition sections_by_name :: "json list \<Rightarrow> py_error + (json \<times> json) list" where
  "sections_by_name items =
     foldl_r (\<lambda>acc item.
        bind_r (py_get item ''name'' JNull) (\<lambda>name.
          if \<not> py_eq name (JStr ''theme_info'')
          then (if hashable name then Inr (jdict_set acc name item) else Inl TypeError)
          else Inr acc))
       [] items"

text \<open>\<^verbatim>\<open>section.get('settings', [])\<close>, as the list a loop over it runs through.\<close>

definition section_settings :: "json \<Rightarrow> py_error + json list" where
  "section_settings section = bind_r (py_get section ''settings'' (JArr [])) py_iter"

text \<open>\<^verbatim>\<open>{s.get('id'): s for s in section.get('settings', []) if s.get('id')}\<close>\<close>

definition settings_by_id :: "json \<Rightarrow> py_error + (json \<times> json) list" where
  "settings_by_id section =
     bind_r (section_settings section) (\<lambda>settings.
       foldl_r (\<lambda>acc s.
          bind_r (py_get s ''id'' JNull) (\<lambda>i.
            if truthy i
            then (if hashable i then Inr (jdict_set acc i s) else Inl TypeError)
            else Inr acc))
         [] settings)"

subsection \<open>The records\<close>

definition section_record :: "py_env \<Rightarrow> string \<Rightarrow> string \<Rightarrow> string \<Rightarrow> json \<Rightarrow> json" where
  "section_record E comparison lead trail section_name =
     JObj [(''name'', section_name), (''comparison'', JStr comparison),
           (''description'', JStr (lead @ py_str E section_name @ trail))]"

text \<open>
  The record of an added setting.  \<open>describe\<close> is the f-string of its description, which
  differs between the three comparisons.
\<close>

definition setting_record ::
  "string \<Rightarrow> (json \<Rightarrow> json \<Rightarrow> json \<Rightarrow> py_error + string) \<Rightarrow>
   json \<Rightarrow> json \<Rightarrow> json \<Rightarrow> py_error + json" where
  "setting_record comparison describe setting_id section_name setting =
     bind_r (py_get setting ''type'' JNull) (\<lambda>ty.
     bind_r (py_get setting ''label'' (JStr [])) (\<lambda>label.
     bind_r (describe setting_id section_name setting) (\<lambda>description.
     Inr (JObj [(''id'', setting_id), (''section'', section_name),
                (''comparison'', JStr comparison), (''type'', ty), (''label'', label),
                (''description'', JStr description)]))))"

text \<open>
  The record of a modified setting.  \<open>shown\<close> is the setting whose type and label are
  shown: the compared one in the first two comparisons, the base one in the third.
\<close>

definition modification_entry ::
  "string \<Rightarrow> (json \<Rightarrow> json \<Rightarrow> json \<Rightarrow> py_error + string) \<Rightarrow>
   json \<Rightarrow> json \<Rightarrow> json \<Rightarrow> string \<Rightarrow> py_error + json" where
  "modification_entry comparison describe setting_id section_name shown changes =
     bind_r (py_get shown ''type'' JNull) (\<lambda>ty.
     bind_r (py_get shown ''label'' (JStr [])) (\<lambda>label.
     bind_r (describe setting_id section_name shown) (\<lambda>description.
     Inr (JObj [(''id'', setting_id), (''section'', section_name),
                (''comparison'', JStr comparison), (''type'', ty), (''label'', label),
                (''changes'', JStr changes), (''description'', JStr description)]))))"

text \<open>\<^verbatim>\<open>f"{lead}{section_name}: {setting.get('label', setting_id)}"\<close>\<close>

definition describe_by_label ::
  "py_env \<Rightarrow> string \<Rightarrow> json \<Rightarrow> json \<Rightarrow> json \<Rightarrow> py_error + string" where
  "describe_by_label E lead setting_id section_name setting =
     bind_r (py_get setting ''label'' setting_id) (\<lambda>label.
       Inr (lead @ py_str E section_name @ '': '' @ py_str E label))"

text \<open>\<^verbatim>\<open>f"{lead}{setting_id} in {section_name}"\<close>\<close>

definition describe_by_id ::
  "py_env \<Rightarrow> string \<Rightarrow> json \<Rightarrow> json \<Rightarrow> json \<Rightarrow> py_error + string" where
  "describe_by_id E lead setting_id section_name setting =
     Inr (lead @ py_str E setting_id @ '' in '' @ py_str E section_name)"

subsection \<open>The records of each comparison\<close>

definition custom_section :: "py_env \<Rightarrow> json \<Rightarrow> json" where
  "custom_section E =
     section_record E ''v10_upstream_vs_v10_custom'' ''Custom section: '' []"

definition custom_addition :: "py_env \<Rightarrow> json \<Rightarrow> json \<Rightarrow> json \<Rightarrow> py_error + json" where
  "custom_addition E =
     setting_record ''v10_upstream_vs_v10_custom'' (describe_by_label E ''Custom setting in '')"

definition custom_modification ::
  "py_env \<Rightarrow> json \<Rightarrow> json \<Rightarrow> json \<Rightarrow> json \<Rightarrow> string \<Rightarrow> py_error + json" where
  "custom_modification E setting_id section_name base_setting compare_setting =
     modification_entry ''v10_upstream_vs_v10_custom''
       (describe_by_label E ''Modified Dawn setting in '') setting_id section_name compare_setting"

definition dawn_section :: "py_env \<Rightarrow> json \<Rightarrow> json" where
  "dawn_section E =
     section_record E ''v10_upstream_vs_v15_upstream'' ''Dawn 15.4.0 added section: '' []"

definition dawn_addition :: "py_env \<Rightarrow> json \<Rightarrow> json \<Rightarrow> json \<Rightarrow> py_error + json" where
  "dawn_addition E =
     setting_record ''v10_upstream_vs_v15_upstream''
       (describe_by_label E ''Dawn 15.4.0 added setting in '')"

definition dawn_modification ::
  "py_env \<Rightarrow> json \<Rightarrow> json \<Rightarrow> json \<Rightarrow> json \<Rightarrow> string \<Rightarrow> py_error + json" where
  "dawn_modification E setting_id section_name base_setting compare_setting =
     modification_entry ''v10_upstream_vs_v15_upstream''
       (describe_by_label E ''Dawn 15.4.0 modified setting in '')
       setting_id section_name compare_setting"

definition conflict_section :: "py_env \<Rightarrow> json \<Rightarrow> json" where
  "conflict_section E =
     section_record E ''v10_custom_vs_v15_upstream''
       ''Conflict: Dawn 15.4.0 has section '' '' that we don't have''"

definition conflict_addition :: "py_env \<Rightarrow> json \<Rightarrow> json \<Rightarrow> json \<Rightarrow> py_error + json" where
  "conflict_addition E =
     setting_record ''v10_custom_vs_v15_upstream''
       (describe_by_id E ''Conflict: Dawn 15.4.0 added setting '')"

definition conflict_modification ::
  "py_env \<Rightarrow> json \<Rightarrow> json \<Rightarrow> json \<Rightarrow> json \<Rightarrow> string \<Rightarrow> py_error + json" where
  "conflict_modification E setting_id section_name base_setting compare_setting =
     modification_entry ''v10_custom_vs_v15_upstream''
       (describe_by_id E ''Conflict: Both we and Dawn 15.4.0 modified setting '')
       setting_id section_name base_setting"

subsection \<open>The loops\<close>

text \<open>
  Sections of \<open>compare\<close> that \<open>base\<close> lacks, first comparison: one record for the section
  and one for each of its settings with a truthy id.  The result is the pair of what
  the loop appends to custom_sections and to custom_additions.
\<close>

definition new_section_settings :: "py_env \<Rightarrow> json \<Rightarrow> json \<Rightarrow> py_error + json list" where
  "new_section_settings E section_name section =
     bind_r (section_settings section) (\<lambda>settings.
     bind_r (mapM_r (\<lambda>setting.
               bind_r (py_get setting ''id'' JNull) (\<lambda>i.
                 if truthy i
                 then bind_r (custom_addition E i section_name setting) (\<lambda>r. Inr [r])
                 else Inr []))
             settings) (\<lambda>rs.
     Inr (concat rs)))"

definition custom_sections_loop ::
  "py_env \<Rightarrow> (json \<times> json) list \<Rightarrow> (json \<times> json) list \<Rightarrow>
   py_error + (json list \<times> json list)" where
  "custom_sections_loop E base_sections compare_sections =
     bind_r (mapM_r (\<lambda>section_name.
               if jdict_get base_sections section_name = None
               then bind_r (jdict_item compare_sections section_name) (\<lambda>section.
                    bind_r (new_section_settings E section_name section) (\<lambda>adds.
                    Inr ([custom_section E section_name], adds)))
               else Inr ([], []))
             (map fst compare_sections)) (\<lambda>ps.
     Inr (concat (map fst ps), concat (map snd ps)))"

text \<open>
  Sections of \<open>compare\<close> that \<open>base\<close> lacks, second and third comparison: one record for
  the section, appended to the list of additions.
\<close>

definition added_sections_loop ::
  "(json \<Rightarrow> json) \<Rightarrow> (json \<times> json) list \<Rightarrow> (json \<times> json) list \<Rightarrow> json list" where
  "added_sections_loop mk base_sections compare_sections =
     concat (map (\<lambda>section_name.
                if jdict_get base_sections section_name = None then [mk section_name] else [])
             (map fst compare_sections))"

text \<open>
  The settings of one section present on both sides: the additions in the order of the
  compared section's dict, the modifications in the order of the set of common ids.
\<close>

definition compare_settings ::
  "py_env \<Rightarrow> (json \<Rightarrow> json \<Rightarrow> json \<Rightarrow> py_error + json) \<Rightarrow>
   (json \<Rightarrow> json \<Rightarrow> json \<Rightarrow> json \<Rightarrow> string \<Rightarrow> py_error + json) \<Rightarrow>
   json \<Rightarrow> json \<Rightarrow> json \<Rightarrow> py_error + (json list \<times> json list)" where
  "compare_settings E mk_add mk_mod section_name base_section compare_section =
     bind_r (settings_by_id base_section) (\<lambda>base_settings.
     bind_r (settings_by_id compare_section) (\<lambda>compare_settings.
     bind_r (mapM_r (\<lambda>(setting_id, setting).
               if jdict_get base_settings setting_id = None
               then bind_r (mk_add setting_id section_name setting) (\<lambda>r. Inr [r])
               else Inr [])
             compare_settings) (\<lambda>adds.
     bind_r (mapM_r (\<lambda>setting_id.
               bind_r (jdict_item base_settings setting_id) (\<lambda>b.
               bind_r (jdict_item compare_settings setting_id) (\<lambda>c.
                 case deep_diff E b c of
                   None \<Rightarrow> Inr []
                 | Some changes \<Rightarrow>
                     bind_r (mk_mod setting_id section_name b c changes) (\<lambda>r. Inr [r]))))
             (set_iter E (keys_and base_settings compare_settings))) (\<lambda>mods.
     Inr (concat adds, concat mods)))))"

definition common_sections_loop ::
  "py_env \<Rightarrow> (json \<Rightarrow> json \<Rightarrow> json \<Rightarrow> py_error + json) \<Rightarrow>
   (json \<Rightarrow> json \<Rightarrow> json \<Rightarrow> json \<Rightarrow> string \<Rightarrow> py_error + json) \<Rightarrow>
   (json \<times> json) list \<Rightarrow> (json \<times> json) list \<Rightarrow> py_error + (json list \<times> json list)" where
  "common_sections_loop E mk_add mk_mod base_sections compare_sections =
     bind_r (mapM_r (\<lambda>section_name.
               bind_r (jdict_item base_sections section_name) (\<lambda>base_section.
               bind_r (jdict_item compare_sections section_name) (\<lambda>compare_section.
               compare_settings E mk_add mk_mod section_name base_section compare_section)))
             (set_iter E (keys_and base_sections compare_sections))) (\<lambda>ps.
     Inr (concat (map fst ps), concat (map snd ps)))"

subsection \<open>The function\<close>

record schema_result =
  s_custom_additions :: "json list"
  s_modifications :: "json list"
  s_removals :: "json list"
  s_custom_sections :: "json list"
  s_dawn_additions :: "json list"
  s_dawn_modifications :: "json list"
  s_dawn_removals :: "json list"
  s_conflict_additions :: "json list"
  s_conflict_modifications :: "json list"
  s_conflict_removals :: "json list"
  theme_info_changes :: "(string \<times> json) list"

definition version_change :: "string \<Rightarrow> json \<Rightarrow> json \<Rightarrow> json" where
  "version_change comparison old new =
     JObj [(''old'', old), (''new'', new), (''comparison'', JStr comparison)]"

definition version_changes :: "json \<Rightarrow> json \<Rightarrow> json \<Rightarrow> (string \<times> json) list" where
  "version_changes v10_version current_version v15_version =
     (if \<not> py_eq v10_version current_version
      then [(''v10_custom'',
             version_change ''v10_upstream_vs_v10_custom'' v10_version current_version)]
      else []) @
     (if \<not> py_eq v10_version v15_version
      then [(''v15_upstream'',
             version_change ''v10_upstream_vs_v15_upstream'' v10_version v15_version)]
      else [])"

definition analyze_settings_schema ::
  "py_env \<Rightarrow> json list \<Rightarrow> json list \<Rightarrow> json list \<Rightarrow> py_error + schema_result" where
  "analyze_settings_schema E dawn_v10 current dawn_v15 =
     bind_r (find_theme_info dawn_v10) (\<lambda>v10_theme_info.
     bind_r (find_theme_info current) (\<lambda>current_theme_info.
     bind_r (find_theme_info dawn_v15) (\<lambda>v15_theme_info.
     bind_r (py_get v10_theme_info ''theme_version'' JNull) (\<lambda>v10_version.
     bind_r (py_get current_theme_info ''theme_version'' JNull) (\<lambda>current_version.
     bind_r (py_get v15_theme_info ''theme_version'' JNull) (\<lambda>v15_version.
     bind_r (sections_by_name dawn_v10) (\<lambda>v10_sections.
     bind_r (sections_by_name current) (\<lambda>current_sections.
     bind_r (sections_by_name dawn_v15) (\<lambda>v15_sections.
     bind_r (custom_sections_loop E v10_sections current_sections) (\<lambda>c1a.
     bind_r (common_sections_loop E (custom_addition E) (custom_modification E)
               v10_sections current_sections) (\<lambda>c1b.
     bind_r (common_sections_loop E (dawn_addition E) (dawn_modification E)
               v10_sections v15_sections) (\<lambda>c2b.
     bind_r (common_sections_loop E (conflict_addition E) (conflict_modification E)
               current_sections v15_sections) (\<lambda>c3b.
     Inr \<lparr>s_custom_additions = snd c1a @ fst c1b,
          s_modifications = snd c1b,
          s_removals = [],
          s_custom_sections = fst c1a,
          s_dawn_additions =
            added_sections_loop (dawn_section E) v10_sections v15_sections @ fst c2b,
          s_dawn_modifications = snd c2b,
          s_dawn_removals = [],
          s_conflict_additions =
            added_sections_loop (conflict_section E) current_sections v15_sections @ fst c3b,
          s_conflict_modifications = snd c3b,
          s_conflict_removals = [],
          theme_info_changes =
            version_changes v10_version current_version v15_version\<rparr>)))))))))))))"

section \<open>version_config.py and the exit status of the scripts\<close>

text \<open>
  The files that exist, with their text; paths are relative to the root of the
  repository.  The \<^verbatim>\<open>--config\<close> option is absent (\<open>None\<close>, the default) or the str
  argparse hands over.
\<close>

type_synonym filesystem = "string \<Rightarrow> string option"

datatype config_arg = No_config | Config_str string

text \<open>
  The statement \<^verbatim>\<open>from version_config import ...\<close> at the top of each script, which
  runs before \<open>main\<close> is called.  The script has put its own directory first on
  \<^verbatim>\<open>sys.path\<close>; \<open>sys_path\<close> is the rest of the path (the directories of
  \<^verbatim>\<open>PYTHONPATH\<close> among them).  The module is taken from the first of these directories
  that holds version_config.py; when none does the import raises.  The repository has
  the file in scripts/ only.
\<close>

definition find_module :: "filesystem \<Rightarrow> string list \<Rightarrow> string option" where
  "find_module fs dirs = find (\<lambda>d. fs (d @ ''/version_config.py'') \<noteq> None) dirs"

definition import_version_config :: "filesystem \<Rightarrow> string \<Rightarrow> string list \<Rightarrow> py_error + string" where
  "import_version_config fs script_dir sys_path =
     (case find_module fs (script_dir # sys_path) of
        None \<Rightarrow> Inl ModuleNotFoundError
      | Some module_dir \<Rightarrow> Inr module_dir)"

text \<open>
  \<^verbatim>\<open>Path(__file__).parent.parent / '.upgrade-analysis' / 'version-config.json'\<close>,
  \<open>module_dir\<close> being the directory of version_config.py and \<open>parent_dir\<close> the path of
  its parent with the slash that ends it (nothing for a directory of the root).
\<close>

definition parent_dir :: "string \<Rightarrow> string" where
  "parent_dir d = rev (dropWhile (\<lambda>c. c \<noteq> CHR ''/'') (rev d))"

definition DEFAULT_CONFIG_PATH :: "string \<Rightarrow> string" where
  "DEFAULT_CONFIG_PATH module_dir = parent_dir module_dir @ ''.upgrade-analysis/version-config.json''"

text \<open>
  \<open>load_version_config\<close>: the default path is a \<^verbatim>\<open>pathlib.Path\<close>; a str has no
  \<^verbatim>\<open>exists\<close> method, so the call on it raises.  \<open>json_load\<close> is the parser.
\<close>

definition load_version_config ::
  "filesystem \<Rightarrow> (string \<Rightarrow> py_error + json) \<Rightarrow> string \<Rightarrow> config_arg \<Rightarrow> py_error + json" where
  "load_version_config fs json_load module_dir config_path =
     (case config_path of
        Config_str s \<Rightarrow> Inl AttributeError
      | No_config \<Rightarrow>
          (case fs (DEFAULT_CONFIG_PATH module_dir) of
             None \<Rightarrow> Inl FileNotFoundError
           | Some text \<Rightarrow> json_load text))"

definition get_git_refs ::
  "filesystem \<Rightarrow> (string \<Rightarrow> py_error + json) \<Rightarrow> string \<Rightarrow> config_arg \<Rightarrow> py_error + json" where
  "get_git_refs fs json_load module_dir config_path =
     bind_r (load_version_config fs json_load module_dir config_path) (\<lambda>config.
     bind_r (py_get config ''git_config'' (JObj [])) (\<lambda>git_config.
     bind_r (py_get git_config ''current_branch'' (JStr ''HEAD'')) (\<lambda>cur.
     bind_r (py_get git_config ''comparison_ref'' (JStr ''v10.0.0'')) (\<lambda>cmp.
     bind_r (py_get git_config ''destination_ref'' (JStr ''upstream/main'')) (\<lambda>dst.
     bind_r (py_get git_config ''upstream_remote'' (JStr ''upstream'')) (\<lambda>rem.
     Inr (JObj [(''current'', cur), (''comparison'', cmp), (''destination'', dst),
                (''upstream_remote'', rem)])))))))"

definition get_version_info ::
  "filesystem \<Rightarrow> (string \<Rightarrow> py_error + json) \<Rightarrow> string \<Rightarrow> config_arg \<Rightarrow> py_error + json" where
  "get_version_info fs json_load module_dir config_path =
     bind_r (load_version_config fs json_load module_dir config_path) (\<lambda>config.
     bind_r (py_get config ''current_version'' (JObj [])) (\<lambda>cur.
     bind_r (py_get config ''comparison_version'' (JObj [])) (\<lambda>cmp.
     bind_r (py_get config ''destination_version'' (JObj [])) (\<lambda>dst.
     Inr (JObj [(''current'', cur), (''comparison'', cmp), (''destination'', dst)])))))"

text \<open>
  The head of \<open>main\<close> in extract-dawn-files.py, generate-all-diffs.py and
  generate-json-patches.py: both loaders run inside a \<^verbatim>\<open>try\<close>, a missing file
  prints the error and returns 1, any other exception propagates.  \<open>body\<close> is the rest of
  \<open>main\<close> (the git calls), which returns 0 at its end.  generate-file-patches.py loads
  the git refs only.
\<close>

definition main_with_config ::
  "filesystem \<Rightarrow> (string \<Rightarrow> py_error + json) \<Rightarrow> (json \<Rightarrow> json \<Rightarrow> py_error + int) \<Rightarrow>
   string \<Rightarrow> config_arg \<Rightarrow> py_error + int" where
  "main_with_config fs json_load body module_dir config =
     (case bind_r (get_git_refs fs json_load module_dir config) (\<lambda>git_refs.
           bind_r (get_version_info fs json_load module_dir config) (\<lambda>version_info.
           Inr (git_refs, version_info))) of
        Inl e \<Rightarrow> if e = FileNotFoundError then Inr 1 else Inl e
      | Inr (git_refs, version_info) \<Rightarrow> body git_refs version_info)"

definition main_with_git_refs ::
  "filesystem \<Rightarrow> (string \<Rightarrow> py_error + json) \<Rightarrow> (json \<Rightarrow> py_error + int) \<Rightarrow>
   string \<Rightarrow> config_arg \<Rightarrow> py_error + int" where
  "main_with_git_refs fs json_load body module_dir config =
     (case get_git_refs fs json_load module_dir config of
        Inl e \<Rightarrow> if e = FileNotFoundError then Inr 1 else Inl e
      | Inr git_refs \<Rightarrow> body git_refs)"

text \<open>
  The status of the process.  \<^verbatim>\<open>exit(main())\<close> exits with what \<open>main\<close> returned;
  a bare \<^verbatim>\<open>main()\<close> drops the value and the interpreter ends with 0.  An exception
  that leaves \<open>main\<close> ends the process with 1 either way, and so does one raised by
  the import, before \<open>main\<close> runs.
\<close>

definition exit_main :: "py_error + int \<Rightarrow> int" where
  "exit_main r = (case r of Inl e \<Rightarrow> 1 | Inr n \<Rightarrow> n)"

definition bare_main :: "py_error + int \<Rightarrow> int" where
  "bare_main r = (case r of Inl e \<Rightarrow> 1 | Inr n \<Rightarrow> 0)"

definition extract_dawn_files_status ::
  "filesystem \<Rightarrow> string list \<Rightarrow> (string \<Rightarrow> py_error + json) \<Rightarrow>
   (json \<Rightarrow> json \<Rightarrow> py_error + int) \<Rightarrow> config_arg \<Rightarrow> int" where
  "extract_dawn_files_status fs sys_path json_load body config =
     exit_main (bind_r (import_version_config fs ''scripts'' sys_path) (\<lambda>module_dir.
                main_with_config fs json_load body module_dir config))"

definition generate_all_diffs_status ::
  "filesystem \<Rightarrow> string list \<Rightarrow> (string \<Rightarrow> py_error + json) \<Rightarrow>
   (json \<Rightarrow> json \<Rightarrow> py_error + int) \<Rightarrow> config_arg \<Rightarrow> int" where
  "generate_all_diffs_status fs sys_path json_load body config =
     bare_main (bind_r (import_version_config fs ''.upgrade-analysis/scripts'' sys_path)
                  (\<lambda>module_dir. main_with_config fs json_load body module_dir config))"

definition generate_json_patches_status ::
  "filesystem \<Rightarrow> string list \<Rightarrow> (string \<Rightarrow> py_error + json) \<Rightarrow>
   (json \<Rightarrow> json \<Rightarrow> py_error + int) \<Rightarrow> config_arg \<Rightarrow> int" where
  "generate_json_patches_status fs sys_path json_load body config =
     bare_main (bind_r (import_version_config fs ''.upgrade-analysis/scripts'' sys_path)
                  (\<lambda>module_dir. main_with_config fs json_load body module_dir config))"

definition generate_file_patches_status ::
  "filesystem \<Rightarrow> string list \<Rightarrow> (string \<Rightarrow> py_error + json) \<Rightarrow>
   (json \<Rightarrow> py_error + int) \<Rightarrow> config_arg \<Rightarrow> int" where
  "generate_file_patches_status fs sys_path json_load body config =
     bare_main (bind_r (import_version_config fs ''.upgrade-analysis/scripts'' sys_path)
                  (\<lambda>module_dir. main_with_git_refs fs json_load body module_dir config))"

section \<open>Notions used in the statements about load_json\<close>












section \<open>Notions used in the statements about analyze_settings_schema\<close>

text \<open>
  Two hashable values are equal for Python exactly when they agree once \<open>True\<close> and
  \<open>False\<close> are read as 1 and 0.
\<close>

fun key_norm :: "json \<Rightarrow> json" where
  "key_norm (JBool b) = JNum (if b then 1 else 0)"
| "key_norm j = j"

text \<open>A dict as the comprehensions build it: hashable keys, no two of them equal.\<close>

fun jdict_ok :: "(json \<times> 'v) list \<Rightarrow> bool" where
  "jdict_ok [] = True"
| "jdict_ok ((k, v) # kvs) = (hashable k \<and> jdict_get kvs k = None \<and> jdict_ok kvs)"

text \<open>
  A snapshot on which the comparison cannot raise: every section is an object whose
  name, if any, is hashable and whose settings, if any, are a list of objects in which
  an id that is truthy is hashable.
\<close>

fun is_obj :: "json \<Rightarrow> bool" where
  "is_obj (JObj kvs) = True"
| "is_obj _ = False"

definition ws_setting :: "json \<Rightarrow> bool" where
  "ws_setting s =
     (case s of
        JObj kvs \<Rightarrow>
          (case map_of kvs ''id'' of
             None \<Rightarrow> True
           | Some i \<Rightarrow> if truthy i then hashable i else True)
      | _ \<Rightarrow> False)"

definition ws_section :: "json \<Rightarrow> bool" where
  "ws_section item =
     (case item of
        JObj kvs \<Rightarrow>
          (case map_of kvs ''name'' of None \<Rightarrow> True | Some n \<Rightarrow> hashable n) \<and>
          (case map_of kvs ''settings'' of
             None \<Rightarrow> True
           | Some ss \<Rightarrow> (case ss of JArr xs \<Rightarrow> list_all ws_setting xs | _ \<Rightarrow> False))
      | _ \<Rightarrow> False)"

text \<open>A record that is not the record of a setting without a truthy id.\<close>

definition entry_id_truthy :: "json \<Rightarrow> bool" where
  "entry_id_truthy r =
     (case r of
        JObj kvs \<Rightarrow> (case map_of kvs ''id'' of None \<Rightarrow> True | Some i \<Rightarrow> truthy i)
      | _ \<Rightarrow> False)"

text \<open>A setting that lacks an id, or whose id is falsy.\<close>

definition lacks_id :: "json \<Rightarrow> bool" where
  "lacks_id s =
     (case s of
        JObj kvs \<Rightarrow> (case map_of kvs ''id'' of None \<Rightarrow> True | Some i \<Rightarrow> \<not> truthy i)
      | _ \<Rightarrow> False)"

text \<open>The section with such settings taken out of its list of settings.\<close>

definition without_idless :: "json \<Rightarrow> json" where
  "without_idless section =
     (case section of
        JObj kvs \<Rightarrow>
          JObj (map (\<lambda>(k, v).
                      (k, if k = ''settings''
                          then (case v of JArr xs \<Rightarrow> JArr (filter (\<lambda>s. \<not> lacks_id s) xs) | _ \<Rightarrow> v)
                          else v))
                 kvs)
      | _ \<Rightarrow> section)"

text \<open>
  A section without a name: \<^verbatim>\<open>section.get('name')\<close> is \<open>None\<close>, the key being
  absent or its value null.
\<close>

definition nameless :: "json \<Rightarrow> bool" where
  "nameless section = (py_get section ''name'' JNull = Inr JNull)"

text \<open>The iteration of a set visits each of its elements once.\<close>

definition permuting :: "(json list \<Rightarrow> json list) \<Rightarrow> bool" where
  "permuting f = (\<forall>ks. mset (f ks) = mset ks)"

text \<open>An environment and sections for the examples.\<close>

definition example_env :: py_env where
  "example_env =
     \<lparr>py_str = (\<lambda>j. case j of JStr s \<Rightarrow> s | _ \<Rightarrow> ''None''),
      deep_diff = (\<lambda>a b. if py_eq a b then None else Some ''changed''),
      set_iter = (\<lambda>ks. ks)\<rparr>"

definition example_setting :: "string \<Rightarrow> json" where
  "example_setting i = JObj [(''id'', JStr i)]"

definition example_section :: "string \<Rightarrow> string list \<Rightarrow> json" where
  "example_section n ids =
     JObj [(''name'', JStr n), (''settings'', JArr (map example_setting ids))]"

text \<open>The example environment with the sets iterated in the opposite order.\<close>

definition example_env_rev :: py_env where
  "example_env_rev = example_env\<lparr>set_iter := rev\<rparr>"

section \<open>Inputs used in examples\<close>


text \<open>
  The tree of the repository as far as the scripts read it: version_config.py in
  scripts/, with \<open>source\<close> as its text, and no version-config.json.
\<close>

definition repo_tree :: "string \<Rightarrow> filesystem" where
  "repo_tree source = (\<lambda>p. if p = ''scripts/version_config.py'' then Some source else None)"

text \<open>
  The final component of a path, as the specification words the locale rule ("its
  filename"): what follows the last slash.
\<close>

definition spec_filename :: "string \<Rightarrow> string" where
  "spec_filename p = rev (takeWhile (\<lambda>c. c \<noteq> CHR ''/'') (rev p))"

definition unlines :: "string list \<Rightarrow> string" where
  "unlines ls = concat (map (\<lambda>l. l @ [newline]) ls)"

text \<open>A diff of one modified file, with one removed and one added line.\<close>

definition base_css_diff :: string where
  "base_css_diff = unlines [
     ''diff --git a/assets/base.css b/assets/base.css'',
     ''--- a/assets/base.css'',
     ''+++ b/assets/base.css'',
     ''@@ -1 +1 @@'',
     ''-a'',
     ''+b'']"

text \<open>A diff of one deleted file: nothing but removed lines.\<close>

definition translation_yml_diff :: string where
  "translation_yml_diff = unlines [
     ''diff --git a/translation.yml b/translation.yml'',
     ''deleted file mode 100644'',
     ''--- a/translation.yml'',
     ''+++ /dev/null'',
     ''@@ -1 +0,0 @@'',
     ''-x'']"

section \<open>Properties of parse_file_changes\<close>

lemma parse_line_added:
  "added (parse_line r l) =
     added r @ (if line_status l = Some CHR ''A'' then [line_path l] else [])"
  by (cases "strip l") (simp_all add: parse_line_def line_status_def line_path_def Let_def)

lemma parse_line_modified:
  "modified (parse_line r l) =
     modified r @ (if line_status l = Some CHR ''M'' then [line_path l] else [])"
  by (cases "strip l") (simp_all add: parse_line_def line_status_def line_path_def Let_def)

lemma parse_line_deleted:
  "deleted (parse_line r l) =
     deleted r @ (if line_status l = Some CHR ''D'' then [line_path l] else [])"
  by (cases "strip l") (simp_all add: parse_line_def line_status_def line_path_def Let_def)

lemma foldl_parse_line_added:
  "added (foldl parse_line r ls) =
     added r @ map line_path (filter (\<lambda>l. line_status l = Some CHR ''A'') ls)"
  by (induction ls arbitrary: r) (simp_all add: parse_line_added)

lemma foldl_parse_line_modified:
  "modified (foldl parse_line r ls) =
     modified r @ map line_path (filter (\<lambda>l. line_status l = Some CHR ''M'') ls)"
  by (induction ls arbitrary: r) (simp_all add: parse_line_modified)

lemma foldl_parse_line_deleted:
  "deleted (foldl parse_line r ls) =
     deleted r @ map line_path (filter (\<lambda>l. line_status l = Some CHR ''D'') ls)"
  by (induction ls arbitrary: r) (simp_all add: parse_line_deleted)

text \<open>
  C10.  The added, modified and deleted lists hold, in file order, the paths of exactly
  the lines whose stripped text is not empty and begins with A, M and D respectively.
  A line with any other first character (R, C, T, ...) puts its path in none of the
  three lists.
\<close>

theorem parse_file_changes_by_status:
  "added (parse_file_changes ls) =
     map line_path (filter (\<lambda>l. line_status l = Some CHR ''A'') ls) \<and>
   modified (parse_file_changes ls) =
     map line_path (filter (\<lambda>l. line_status l = Some CHR ''M'') ls) \<and>
   deleted (parse_file_changes ls) =
     map line_path (filter (\<lambda>l. line_status l = Some CHR ''D'') ls)"
  by (simp add: parse_file_changes_def no_changes_def foldl_parse_line_added
      foldl_parse_line_modified foldl_parse_line_deleted)

section \<open>Properties of the file classifier\<close>

lemma dict_set_keys:
  "map fst (dict_set m k v) = (if k \<in> set (map fst m) then map fst m else map fst m @ [k])"
  by (induction m) (force simp: image_iff)+

lemma dict_set_entries:
  "(k', v') \<in> set (dict_set m k v) \<Longrightarrow> (k', v') \<in> set m \<or> (k' = k \<and> v' = v)"
  by (induction m) (auto split: if_splits)

lemma foldl_dict_set_keys:
  "distinct (map fst m) \<Longrightarrow>
   distinct (map fst (foldl (\<lambda>acc p. dict_set acc p (f p)) m ps)) \<and>
   set (map fst (foldl (\<lambda>acc p. dict_set acc p (f p)) m ps)) = set (map fst m) \<union> set ps"
proof (induction ps arbitrary: m)
  case Nil
  then show ?case by simp
next
  case (Cons p ps)
  have d: "distinct (map fst (dict_set m p (f p)))"
    using Cons.prems by (simp add: dict_set_keys)
  have s: "set (map fst (dict_set m p (f p))) = insert p (set (map fst m))"
    by (auto simp: dict_set_keys)
  from Cons.IH [OF d] s show ?case by auto
qed

lemma foldl_dict_set_entries:
  "\<forall>(k, v) \<in> set m. v = f k \<Longrightarrow>
   (k, v) \<in> set (foldl (\<lambda>acc p. dict_set acc p (f p)) m ps) \<Longrightarrow> v = f k"
proof (induction ps arbitrary: m)
  case Nil
  then show ?case by auto
next
  case (Cons p ps)
  have "\<forall>(k, v) \<in> set (dict_set m p (f p)). v = f k"
    using Cons.prems(1) by (auto dest: dict_set_entries)
  from Cons.IH [OF this] Cons.prems(2) show ?case by simp
qed

lemma categorize_modified_keys:
  "distinct (map fst (categorize_modified d1 d2 d3 ps)) \<and>
   set (map fst (categorize_modified d1 d2 d3 ps)) = set ps"
  using foldl_dict_set_keys [of "[]" "modified_entry d1 d2 d3" ps]
  by (simp add: categorize_modified_def)

lemma categorize_modified_entries:
  "(k, v) \<in> set (categorize_modified d1 d2 d3 ps) \<Longrightarrow> v = modified_entry d1 d2 d3 k"
  using foldl_dict_set_entries [of "[]" "modified_entry d1 d2 d3" k v ps]
  by (simp add: categorize_modified_def)

lemma enhance_keys:
  "map fst (modified_dawn_files (enhance fd eip cat)) = map fst (modified_dawn_files cat)"
  by (auto simp: enhance_def split: option.splits prod.splits)

lemma enhance_revert:
  "(k, v) \<in> set (modified_dawn_files (enhance fd eip cat)) \<Longrightarrow>
   \<exists>v0. (k, v0) \<in> set (modified_dawn_files cat) \<and> m_revert_to_clean v = m_revert_to_clean v0"
  by (auto simp: enhance_def split: option.splits prod.splits)

lemma enhanced_modified_revert:
  assumes "(k, v) \<in> set (modified_dawn_files (enhance fd eip (categorize_files fc diff d1 d2 d3)))"
  shows "m_revert_to_clean v = revert_to_clean_rule k"
proof -
  from enhance_revert [OF assms] obtain v0 where
    v0: "(k, v0) \<in> set (categorize_modified d1 d2 d3 (modified fc))"
    and eq: "m_revert_to_clean v = m_revert_to_clean v0"
    by (auto simp: categorize_files_def)
  from categorize_modified_entries [OF v0] eq show ?thesis
    by (simp add: modified_entry_def Let_def)
qed

lemma enhanced_modified_keys:
  "map fst (modified_dawn_files (enhance fd eip (categorize_files fc diff d1 d2 d3)))
     = map fst (categorize_modified d1 d2 d3 (modified fc))"
  by (simp add: enhance_keys categorize_files_def)

lemma files_to_revert_mem:
  "p \<in> set (files_to_revert_to_clean (snd (combine_results cat))) \<longleftrightarrow>
     (\<exists>info. (p, info) \<in> set (modified_dawn_files cat) \<and> m_revert_to_clean info)"
  by (auto simp: combine_results_def Let_def image_iff)

lemma files_to_patch_mem:
  "p \<in> set (files_to_patch_modified (snd (combine_results cat))) \<longleftrightarrow>
     (\<exists>info. (p, info) \<in> set (modified_dawn_files cat) \<and> \<not> m_revert_to_clean info)"
  by (auto simp: combine_results_def Let_def image_iff)

text \<open>
  C3 (as amended).  A modified path is put in files_to_revert_to_clean exactly when it
  starts with locales/ and does not start with locales/en., or is README.md; it is put
  in files_to_patch_modified exactly when it is not.  The test is on the whole path, not
  on its final component.
\<close>

theorem modified_path_bucket:
  assumes "p \<in> set (modified fc)"
  shows
    "(p \<in> set (files_to_revert_to_clean (snd (categorize_main fc diff d1 d2 d3 fd eip))) \<longleftrightarrow>
        (startswith p ''locales/'' \<and> \<not> startswith p ''locales/en.'') \<or> p = ''README.md'') \<and>
     (p \<in> set (files_to_patch_modified (snd (categorize_main fc diff d1 d2 d3 fd eip))) \<longleftrightarrow>
        \<not> ((startswith p ''locales/'' \<and> \<not> startswith p ''locales/en.'') \<or> p = ''README.md''))"
proof -
  let ?cat = "enhance fd eip (categorize_files fc diff d1 d2 d3)"
  have rule: "revert_to_clean_rule p \<longleftrightarrow>
      (startswith p ''locales/'' \<and> \<not> startswith p ''locales/en.'') \<or> p = ''README.md''"
    by (simp add: revert_to_clean_rule_def)
  have "p \<in> set (map fst (modified_dawn_files ?cat))"
    using assms categorize_modified_keys [of d1 d2 d3 "modified fc"]
    by (simp only: enhanced_modified_keys)
  then obtain info where info: "(p, info) \<in> set (modified_dawn_files ?cat)"
    by auto
  have all: "\<And>v. (p, v) \<in> set (modified_dawn_files ?cat) \<Longrightarrow> m_revert_to_clean v = revert_to_clean_rule p"
    by (rule enhanced_modified_revert)
  have r: "p \<in> set (files_to_revert_to_clean (snd (combine_results ?cat))) \<longleftrightarrow> revert_to_clean_rule p"
    unfolding files_to_revert_mem using info all by blast
  have q: "p \<in> set (files_to_patch_modified (snd (combine_results ?cat))) \<longleftrightarrow> \<not> revert_to_clean_rule p"
    unfolding files_to_patch_mem using info all by blast
  show ?thesis
    using r q unfolding rule categorize_main_def by blast
qed

lemma categorize_deleted_map:
  "foldl (\<lambda>acc p. acc @ [f p]) acc0 ps = acc0 @ map f ps"
  by (induction ps arbitrary: acc0) simp_all

lemma categorize_deleted_eq:
  "categorize_deleted diff d1 d2 d3 ps = map (removed_entry diff d1 d2 d3) ps"
  by (simp add: categorize_deleted_def categorize_deleted_map)

lemma removed_entry_flags:
  "should_restore (removed_entry diff d1 d2 d3 p) = (\<not> accept_dawn_15_4 (removed_entry diff d1 d2 d3 p))"
  by (simp add: removed_entry_def Let_def)

lemma filter_split_length:
  "length (filter P xs) + length (filter (\<lambda>x. \<not> P x) xs) = length xs"
  by (induction xs) simp_all

lemma filter_split_length_pair:
  "length (filter (\<lambda>(f, i). P i) xs) + length (filter (\<lambda>(f, i). \<not> P i) xs) = length xs"
  by (induction xs) auto

text \<open>
  C2.  For every input of the classifier the number of modified files equals the number
  to revert plus the number to patch, and the number of removed files equals the number
  to restore plus the number to accept; both validation flags are true and the warning
  is not printed.  The modified files are the distinct modified paths of the input, the
  removed files are its deleted paths.
\<close>

theorem classifier_counts_add_up:
  "length (modified_dawn_files (res_categorized (snd (categorize_main fc diff d1 d2 d3 fd eip))))
     = length (files_to_revert_to_clean (snd (categorize_main fc diff d1 d2 d3 fd eip)))
       + length (files_to_patch_modified (snd (categorize_main fc diff d1 d2 d3 fd eip))) \<and>
   length (removed_dawn_files (res_categorized (snd (categorize_main fc diff d1 d2 d3 fd eip))))
     = length (files_to_restore_from_dawn (snd (categorize_main fc diff d1 d2 d3 fd eip)))
       + length (files_to_accept_dawn_15_4 (snd (categorize_main fc diff d1 d2 d3 fd eip))) \<and>
   length (modified_dawn_files (res_categorized (snd (categorize_main fc diff d1 d2 d3 fd eip))))
     = card (set (modified fc)) \<and>
   length (removed_dawn_files (res_categorized (snd (categorize_main fc diff d1 d2 d3 fd eip))))
     = length (deleted fc) \<and>
   modified_equals_revert_plus_patch
     (validation_flags (res_summary (snd (categorize_main fc diff d1 d2 d3 fd eip)))) \<and>
   removed_equals_restore_plus_accept
     (validation_flags (res_summary (snd (categorize_main fc diff d1 d2 d3 fd eip)))) \<and>
   fst (categorize_main fc diff d1 d2 d3 fd eip) = []"
proof -
  let ?cat = "enhance fd eip (categorize_files fc diff d1 d2 d3)"
  let ?m = "modified_dawn_files ?cat"
  let ?r = "removed_dawn_files ?cat"
  have m: "length ?m = length (filter (\<lambda>(f, info). m_revert_to_clean info) ?m)
             + length (filter (\<lambda>(f, info). \<not> m_revert_to_clean info) ?m)"
    using filter_split_length_pair [of m_revert_to_clean ?m] by simp
  have rr: "?r = map (removed_entry diff d1 d2 d3) (deleted fc)"
    by (simp add: enhance_def categorize_files_def categorize_deleted_eq)
  have "filter should_restore ?r = filter (\<lambda>x. \<not> accept_dawn_15_4 x) ?r"
    unfolding rr by (rule filter_cong) (auto simp: removed_entry_flags)
  then have r: "length ?r = length (filter should_restore ?r) + length (filter accept_dawn_15_4 ?r)"
    using filter_split_length [of accept_dawn_15_4 ?r] by simp
  have keys: "length ?m = card (set (modified fc))"
  proof -
    let ?c = "categorize_modified d1 d2 d3 (modified fc)"
    have d: "distinct (map fst ?c)" and e: "set (map fst ?c) = set (modified fc)"
      using categorize_modified_keys [of d1 d2 d3 "modified fc"] by simp_all
    have "length ?m = length (map fst ?m)" by simp
    also have "\<dots> = length (map fst ?c)"
      by (simp only: enhanced_modified_keys)
    also have "\<dots> = card (set (map fst ?c))"
      using distinct_card [OF d] by simp
    also have "\<dots> = card (set (modified fc))"
      by (simp only: e)
    finally show ?thesis .
  qed
  have len_r: "length ?r = length (deleted fc)"
    by (simp add: rr)
  show ?thesis
    unfolding categorize_main_def combine_results_def Let_def
    using m r keys len_r by simp
qed


theorem modified_path_bucket_witness:
  "''locales/fr.json'' \<in> set (modified
      \<lparr>added = [], modified = [''locales/fr.json'', ''sections/header.liquid''], deleted = []\<rparr>) \<and>
   ''locales/fr.json'' \<in> set (files_to_revert_to_clean (snd (categorize_main
      \<lparr>added = [], modified = [''locales/fr.json'', ''sections/header.liquid''], deleted = []\<rparr>
      [] None None None (\<lambda>_. None) (\<lambda>_ _. [])))) \<and>
   ''locales/fr.json'' \<notin> set (files_to_patch_modified (snd (categorize_main
      \<lparr>added = [], modified = [''locales/fr.json'', ''sections/header.liquid''], deleted = []\<rparr>
      [] None None None (\<lambda>_. None) (\<lambda>_ _. []))))"
  using modified_path_bucket [of "''locales/fr.json''"
      "\<lparr>added = [], modified = [''locales/fr.json'', ''sections/header.liquid''], deleted = []\<rparr>"
      "[]" None None None "\<lambda>_. None" "\<lambda>_ _. []"]
  by (simp add: startswith_def)

text \<open>
  C3 as stated fails on a locale file in a subdirectory: the final component of
  locales/checkout/en.json starts with en., so the claim sends the path to
  files_to_patch_modified, and the classifier reverts it.
\<close>

theorem modified_path_bucket_counterexample:
  "startswith ''locales/checkout/en.json'' ''locales/'' \<and>
   startswith (spec_filename ''locales/checkout/en.json'') ''en.'' \<and>
   ''locales/checkout/en.json'' \<noteq> ''README.md'' \<and>
   ''locales/checkout/en.json'' \<in> set (files_to_revert_to_clean (snd (categorize_main
      \<lparr>added = [], modified = [''locales/checkout/en.json''], deleted = []\<rparr>
      [] None None None (\<lambda>_. None) (\<lambda>_ _. [])))) \<and>
   ''locales/checkout/en.json'' \<notin> set (files_to_patch_modified (snd (categorize_main
      \<lparr>added = [], modified = [''locales/checkout/en.json''], deleted = []\<rparr>
      [] None None None (\<lambda>_. None) (\<lambda>_ _. []))))"
  by code_simp

text \<open>
  C4.  The deleted translation.yml has a diff of removed lines only, and alone it gives
  has_customizations false.  When the diff of another file with an added line precedes
  it in the full diff, the section the classifier cuts out starts at the first header
  of the whole text, takes in that added line, and has_customizations is true.
\<close>

theorem deleted_dev_config_earlier_file:
  "is_dev_config ''translation.yml'' \<and>
   \<not> has_added_line translation_yml_diff \<and>
   \<not> has_customizations
     (removed_entry translation_yml_diff None None None ''translation.yml'') \<and>
   has_customizations
     (removed_entry (base_css_diff @ translation_yml_diff) None None None ''translation.yml'') \<and>
   diff_section ''translation.yml'' (base_css_diff @ translation_yml_diff)
     = Some (base_css_diff @ translation_yml_diff)"
  by code_simp

section \<open>Properties of load_json\<close>










section \<open>Properties of analyze_locale and analyze_settings_data\<close>

lemma flat_step_eq:
  "flat_step base keep_add keep_mod mk_add mk_mod (adds, mods) (k, v) =
     (adds @ (if map_of base k = None \<and> keep_add k then [mk_add k v] else []),
      mods @ (if (case map_of base k of None \<Rightarrow> False
                  | Some old \<Rightarrow> \<not> py_eq old v \<and> keep_mod k v)
              then [mk_mod k (the (map_of base k)) v] else []))"
  by (simp add: flat_step_def split: option.splits)

lemma flat_loop_fold:
  "foldl (flat_step base keep_add keep_mod mk_add mk_mod) (adds, mods) xs =
     (adds @ map (\<lambda>(k, v). mk_add k v)
               (filter (\<lambda>(k, v). map_of base k = None \<and> keep_add k) xs),
      mods @ map (\<lambda>(k, v). mk_mod k (the (map_of base k)) v)
               (filter (\<lambda>(k, v). case map_of base k of None \<Rightarrow> False
                                  | Some old \<Rightarrow> \<not> py_eq old v \<and> keep_mod k v) xs))"
proof (induction xs arbitrary: adds mods)
  case Nil
  then show ?case by simp
next
  case (Cons x xs)
  obtain k v where x: "x = (k, v)" by (cases x)
  show ?case
    unfolding x foldl_Cons flat_step_eq Cons.IH by simp
qed

lemma flat_loop_eq:
  "flat_loop base compare keep_add keep_mod mk_add mk_mod =
     (map (\<lambda>(k, v). mk_add k v)
        (filter (\<lambda>(k, v). map_of base k = None \<and> keep_add k) compare),
      map (\<lambda>(k, v). mk_mod k (the (map_of base k)) v)
        (filter (\<lambda>(k, v). case map_of base k of None \<Rightarrow> False
                           | Some old \<Rightarrow> \<not> py_eq old v \<and> keep_mod k v) compare))"
  by (simp add: flat_loop_def flat_loop_fold)

text \<open>
  C9.  In the pair old upstream against custom, both analysers report a key of the
  custom document that the old upstream document lacks only when it starts with
  custom_ (any other new key yields no record in that pair: a modification needs the
  key in the old upstream document); in the two other pairs every new key is reported.
\<close>

theorem new_keys_reported:
  "custom_additions (analyze_locale dawn_v10 current dawn_v15) =
     map (\<lambda>(k, v). addition_record ''v10_upstream_vs_v10_custom'' ''Custom translation key: '' k v)
       (filter (\<lambda>(k, v). map_of dawn_v10 k = None \<and> startswith k ''custom_'') current) \<and>
   modifications (analyze_locale dawn_v10 current dawn_v15) =
     map (\<lambda>(k, v). modification_record ''v10_upstream_vs_v10_custom'' ''old_value'' ''new_value''
                     ''Modified translation: '' k (the (map_of dawn_v10 k)) v)
       (filter (\<lambda>(k, v). case map_of dawn_v10 k of None \<Rightarrow> False
                          | Some old \<Rightarrow> \<not> py_eq old v) current) \<and>
   dawn_additions (analyze_locale dawn_v10 current dawn_v15) =
     map (\<lambda>(k, v). addition_record ''v10_upstream_vs_v15_upstream''
                     ''Dawn 15.4.0 added translation key: '' k v)
       (filter (\<lambda>(k, v). map_of dawn_v10 k = None) dawn_v15) \<and>
   conflict_additions (analyze_locale dawn_v10 current dawn_v15) =
     map (\<lambda>(k, v). conflict_addition_record ''Conflict: Dawn 15.4.0 has translation key ''
                     '' that we don't have'' k v)
       (filter (\<lambda>(k, v). map_of current k = None) dawn_v15) \<and>
   custom_additions (analyze_settings_data dawn_v10 current dawn_v15) =
     map (\<lambda>(k, v). addition_record ''v10_upstream_vs_v10_custom'' ''Custom setting value: '' k v)
       (filter (\<lambda>(k, v). map_of dawn_v10 k = None \<and> startswith k ''custom_'') current) \<and>
   modifications (analyze_settings_data dawn_v10 current dawn_v15) =
     map (\<lambda>(k, v). modification_record ''v10_upstream_vs_v10_custom'' ''old_value'' ''new_value''
                     ''Modified setting value: '' k (the (map_of dawn_v10 k)) v)
       (filter (\<lambda>(k, v). case map_of dawn_v10 k of None \<Rightarrow> False
                          | Some old \<Rightarrow> \<not> py_eq old v \<and>
                              (startswith k ''custom_'' \<or> is_container v)) current) \<and>
   dawn_additions (analyze_settings_data dawn_v10 current dawn_v15) =
     map (\<lambda>(k, v). addition_record ''v10_upstream_vs_v15_upstream''
                     ''Dawn 15.4.0 added setting value: '' k v)
       (filter (\<lambda>(k, v). map_of dawn_v10 k = None) dawn_v15) \<and>
   conflict_additions (analyze_settings_data dawn_v10 current dawn_v15) =
     map (\<lambda>(k, v). conflict_addition_record ''Conflict: Dawn 15.4.0 has setting value ''
                     '' that we don't have'' k v)
       (filter (\<lambda>(k, v). map_of current k = None) dawn_v15)"
  by (simp add: analyze_locale_def analyze_settings_data_def flat_loop_eq Let_def
      cong: option.case_cong)

section \<open>Exit status with the configuration file missing\<close>

lemma get_git_refs_missing:
  "fs (DEFAULT_CONFIG_PATH module_dir) = None \<Longrightarrow>
   get_git_refs fs json_load module_dir No_config = Inl FileNotFoundError"
  by (simp add: get_git_refs_def load_version_config_def bind_r_def)

lemma main_config_missing:
  assumes "fs (DEFAULT_CONFIG_PATH module_dir) = None"
  shows "main_with_config fs json_load body module_dir No_config = Inr 1"
    and "main_with_git_refs fs json_load body' module_dir No_config = Inr 1"
  using assms
  by (simp_all add: main_with_config_def main_with_git_refs_def get_git_refs_missing bind_r_def)

lemma repo_tree_no_config: "repo_tree source (DEFAULT_CONFIG_PATH ''scripts'') = None"
  by (simp add: repo_tree_def DEFAULT_CONFIG_PATH_def parent_dir_def)

lemma repo_tree_main:
  "main_with_config (repo_tree source) json_load body ''scripts'' No_config = Inr 1"
  "main_with_git_refs (repo_tree source) json_load body' ''scripts'' No_config = Inr 1"
  by (simp_all add: main_config_missing repo_tree_no_config)

lemma repo_tree_import:
  "import_version_config (repo_tree source) ''scripts'' sys_path = Inr ''scripts''"
  "import_version_config (repo_tree source) ''.upgrade-analysis/scripts'' [''scripts''] =
     Inr ''scripts''"
  "import_version_config (repo_tree source) ''.upgrade-analysis/scripts'' [] =
     Inl ModuleNotFoundError"
  by (simp_all add: import_version_config_def find_module_def repo_tree_def)

text \<open>
  C7.  In the tree of the repository, with no configuration file and no
  \<^verbatim>\<open>--config\<close> option, \<open>main\<close> returns 1 in all four scripts.
  extract-dawn-files.py finds version_config beside itself and passes what \<open>main\<close>
  returns to \<open>exit\<close>: the status is 1.  The three scripts of .upgrade-analysis/scripts
  find the module only when scripts/ is on the path; they then call \<open>main\<close> bare and
  end with status 0.  When scripts/ is not on the path their import raises and the
  status is 1, \<open>main\<close> never having run.
\<close>

theorem status_with_config_missing:
  "DEFAULT_CONFIG_PATH ''scripts'' = ''.upgrade-analysis/version-config.json'' \<and>
   main_with_config (repo_tree source) json_load body ''scripts'' No_config = Inr 1 \<and>
   main_with_git_refs (repo_tree source) json_load body' ''scripts'' No_config = Inr 1 \<and>
   extract_dawn_files_status (repo_tree source) [] json_load body No_config = 1 \<and>
   generate_all_diffs_status (repo_tree source) [''scripts''] json_load body No_config = 0 \<and>
   generate_json_patches_status (repo_tree source) [''scripts''] json_load body No_config = 0 \<and>
   generate_file_patches_status (repo_tree source) [''scripts''] json_load body' No_config = 0 \<and>
   generate_all_diffs_status (repo_tree source) [] json_load body No_config = 1 \<and>
   generate_json_patches_status (repo_tree source) [] json_load body No_config = 1 \<and>
   generate_file_patches_status (repo_tree source) [] json_load body' No_config = 1"
  by (simp add: repo_tree_main repo_tree_import bind_r_def
      extract_dawn_files_status_def generate_all_diffs_status_def
      generate_json_patches_status_def generate_file_patches_status_def
      exit_main_def bare_main_def DEFAULT_CONFIG_PATH_def parent_dir_def)

section \<open>Properties of analyze_settings_schema\<close>

subsection \<open>Steps that may raise\<close>

lemma bind_r_Inr_iff:
  "bind_r r f = Inr y \<longleftrightarrow> (\<exists>v. r = Inr v \<and> f v = Inr y)"
  by (cases r) (simp_all add: bind_r_def)

lemma bind_r_Inr [simp]: "bind_r (Inr v) f = f v"
  by (simp add: bind_r_def)

lemma bind_r_Inl [simp]: "bind_r (Inl e) f = Inl e"
  by (simp add: bind_r_def)

lemma mapM_r_Inr_iff:
  "mapM_r f xs = Inr ys \<longleftrightarrow>
     (\<forall>x\<in>set xs. \<exists>y. f x = Inr y) \<and> ys = map (\<lambda>x. projr (f x)) xs"
proof (induction xs arbitrary: ys)
  case Nil
  then show ?case by auto
next
  case (Cons x xs)
  show ?case
  proof (cases "f x")
    case (Inl e)
    then show ?thesis by auto
  next
    case (Inr y)
    show ?thesis
    proof (cases "mapM_r f xs")
      case (Inl e)
      with Inr Cons.IH show ?thesis by auto
    next
      case mr: (Inr zs)
      with Inr Cons.IH [of zs] show ?thesis by auto
    qed
  qed
qed

lemma mapM_r_success:
  assumes "\<And>x. x \<in> set xs \<Longrightarrow> \<exists>y. f x = Inr y \<and> P y"
  shows "\<exists>ys. mapM_r f xs = Inr ys \<and> list_all P ys"
proof -
  have "mapM_r f xs = Inr (map (\<lambda>x. projr (f x)) xs)"
    unfolding mapM_r_Inr_iff using assms by blast
  moreover have "list_all P (map (\<lambda>x. projr (f x)) xs)"
    unfolding list_all_iff using assms by fastforce
  ultimately show ?thesis by blast
qed

lemma mapM_r_member:
  assumes "mapM_r f xs = Inr ys" and "x \<in> set xs"
  shows "\<exists>y \<in> set ys. f x = Inr y"
  using assms unfolding mapM_r_Inr_iff by force

lemma foldl_r_invariant:
  assumes "I s"
    and "\<And>s x. I s \<Longrightarrow> x \<in> set xs \<Longrightarrow> \<exists>s'. f s x = Inr s' \<and> I s'"
  shows "\<exists>s'. foldl_r f s xs = Inr s' \<and> I s'"
  using assms
proof (induction xs arbitrary: s)
  case Nil
  then show ?case by simp
next
  case (Cons x xs)
  have "x \<in> set (x # xs)" by simp
  from Cons.prems(2) [OF Cons.prems(1) this] obtain s1 where s1: "f s x = Inr s1" "I s1"
    by blast
  have step: "\<And>s y. I s \<Longrightarrow> y \<in> set xs \<Longrightarrow> \<exists>s'. f s y = Inr s' \<and> I s'"
    using Cons.prems(2) by simp
  from Cons.IH [OF s1(2) step] obtain s' where "foldl_r f s1 xs = Inr s'" "I s'"
    by blast
  with s1 show ?case by simp
qed

lemma foldl_r_preserves:
  assumes "foldl_r f s xs = Inr s'" and "I s"
    and "\<And>s x s'. I s \<Longrightarrow> x \<in> set xs \<Longrightarrow> f s x = Inr s' \<Longrightarrow> I s'"
  shows "I s'"
  using assms
proof (induction xs arbitrary: s)
  case Nil
  then show ?case by simp
next
  case (Cons x xs)
  from Cons.prems(1) obtain s1 where s1: "f s x = Inr s1" "foldl_r f s1 xs = Inr s'"
    by (auto simp: bind_r_Inr_iff)
  have "x \<in> set (x # xs)" by simp
  from Cons.prems(3) [OF Cons.prems(2) this s1(1)] have i1: "I s1" .
  have step: "I t'" if a: "I t" "y \<in> set xs" "f t y = Inr t'" for t y t'
  proof -
    from a(2) have "y \<in> set (x # xs)" by simp
    from Cons.prems(3) [OF a(1) this a(3)] show ?thesis .
  qed
  from Cons.IH [OF s1(2) i1 step] show ?case .
qed

subsection \<open>Dicts keyed by JSON values\<close>

lemma py_eq_key_norm:
  "hashable a \<Longrightarrow> hashable b \<Longrightarrow> py_eq a b \<longleftrightarrow> key_norm a = key_norm b"
  by (cases a; cases b) simp_all

lemma py_eq_refl: "hashable k \<Longrightarrow> py_eq k k"
  by (simp add: py_eq_key_norm)

lemma jdict_get_None_iff:
  "jdict_get d k = None \<longleftrightarrow> (\<forall>k' v. (k', v) \<in> set d \<longrightarrow> \<not> py_eq k' k)"
proof (induction d)
  case Nil
  then show ?case by simp
next
  case (Cons a d)
  obtain k0 v0 where a: "a = (k0, v0)" by (cases a)
  show ?case
  proof (cases "py_eq k0 k")
    case True
    then show ?thesis unfolding a by auto
  next
    case False
    then show ?thesis unfolding a using Cons.IH by auto
  qed
qed

lemma jdict_get_Some_mem:
  "jdict_get d k = Some v \<Longrightarrow> \<exists>k'. (k', v) \<in> set d \<and> py_eq k' k"
proof (induction d)
  case Nil
  then show ?case by simp
next
  case (Cons a d)
  obtain k0 v0 where a: "a = (k0, v0)" by (cases a)
  show ?case
  proof (cases "py_eq k0 k")
    case True
    with Cons.prems a show ?thesis by auto
  next
    case False
    with Cons.prems a have "jdict_get d k = Some v" by simp
    from Cons.IH [OF this] show ?thesis by auto
  qed
qed

lemma jdict_set_entries:
  "(k', v') \<in> set (jdict_set d k v) \<Longrightarrow> (k', v') \<in> set d \<or> (v' = v \<and> (k' = k \<or> k' \<in> fst ` set d))"
proof (induction d)
  case Nil
  then show ?case by simp
next
  case (Cons a d)
  obtain k0 v0 where a: "a = (k0, v0)" by (cases a)
  show ?case
  proof (cases "py_eq k0 k")
    case True
    with Cons.prems a show ?thesis by auto
  next
    case False
    with Cons.prems a have "(k', v') = (k0, v0) \<or> (k', v') \<in> set (jdict_set d k v)" by simp
    then show ?thesis
    proof
      assume "(k', v') = (k0, v0)"
      then show ?thesis using a by simp
    next
      assume "(k', v') \<in> set (jdict_set d k v)"
      from Cons.IH [OF this] show ?thesis by auto
    qed
  qed
qed

lemma jdict_ok_keys_hashable: "jdict_ok d \<Longrightarrow> (k, v) \<in> set d \<Longrightarrow> hashable k"
  by (induction d) auto

lemma jdict_get_set_None:
  assumes "hashable k" and "hashable k1" and "\<And>x v. (x, v) \<in> set d \<Longrightarrow> hashable x"
  shows "jdict_get (jdict_set d k v) k1 = None \<longleftrightarrow> jdict_get d k1 = None \<and> \<not> py_eq k k1"
  using assms(3)
proof (induction d)
  case Nil
  then show ?case by simp
next
  case (Cons a d)
  obtain k0 v0 where a: "a = (k0, v0)" by (cases a)
  have hk0: "hashable k0" using Cons.prems [of k0 v0] a by simp
  have rest: "hashable x" if "(x, w) \<in> set d" for x w
    using Cons.prems [of x w] that by simp
  show ?case
  proof (cases "py_eq k0 k")
    case True
    then have "py_eq k0 k1 \<longleftrightarrow> py_eq k k1"
      using assms(1,2) hk0 by (simp add: py_eq_key_norm)
    then show ?thesis using True a by simp
  next
    case False
    then show ?thesis using a Cons.IH [OF rest] by simp
  qed
qed

lemma jdict_ok_set:
  assumes "jdict_ok d" and "hashable k"
  shows "jdict_ok (jdict_set d k v)"
  using assms(1)
proof (induction d)
  case Nil
  then show ?case using assms(2) by simp
next
  case (Cons a d)
  obtain k0 v0 where a: "a = (k0, v0)" by (cases a)
  with Cons.prems have *: "hashable k0" "jdict_get d k0 = None" "jdict_ok d" by simp_all
  show ?case
  proof (cases "py_eq k0 k")
    case True
    then show ?thesis using a * by simp
  next
    case False
    then have "\<not> py_eq k k0"
      using assms(2) *(1) by (simp add: py_eq_key_norm eq_commute)
    then have "jdict_get (jdict_set d k v) k0 = None"
      using jdict_get_set_None [OF assms(2) *(1), of d v] jdict_ok_keys_hashable [OF *(3)] *(2)
      by blast
    then show ?thesis using a * False Cons.IH by simp
  qed
qed

lemma jdict_ok_get:
  "jdict_ok d \<Longrightarrow> (k, v) \<in> set d \<Longrightarrow> jdict_get d k = Some v"
proof (induction d)
  case Nil
  then show ?case by simp
next
  case (Cons a d)
  obtain k0 v0 where a: "a = (k0, v0)" by (cases a)
  with Cons.prems have *: "hashable k0" "jdict_get d k0 = None" "jdict_ok d" by simp_all
  show ?case
  proof (cases "(k, v) = (k0, v0)")
    case True
    then show ?thesis using a * by (simp add: py_eq_refl)
  next
    case False
    with Cons.prems a have mem: "(k, v) \<in> set d" by auto
    then have hk: "hashable k"
      using jdict_ok_keys_hashable [OF *(3)] by blast
    have "\<not> py_eq k k0"
      using *(2) mem unfolding jdict_get_None_iff by blast
    then have "\<not> py_eq k0 k"
      using hk *(1) by (simp add: py_eq_key_norm eq_commute)
    then show ?thesis using a Cons.IH [OF *(3) mem] by simp
  qed
qed

lemma jdict_item_ok:
  "jdict_ok d \<Longrightarrow> (k, v) \<in> set d \<Longrightarrow> jdict_item d k = Inr v"
  by (simp add: jdict_item_def jdict_ok_get)

lemma jdict_item_Inr_iff: "jdict_item d k = Inr v \<longleftrightarrow> jdict_get d k = Some v"
  by (simp add: jdict_item_def split: option.splits)

subsection \<open>The dicts of sections and of settings\<close>

lemma sections_by_name_ok:
  assumes "sections_by_name items = Inr d"
  shows "jdict_ok d"
proof (rule foldl_r_preserves [OF assms [unfolded sections_by_name_def], of jdict_ok])
  show "jdict_ok ([] :: (json \<times> json) list)" by simp
next
  fix s :: "(json \<times> json) list" and x s'
  assume "jdict_ok s"
    and "bind_r (py_get x ''name'' JNull) (\<lambda>name.
           if \<not> py_eq name (JStr ''theme_info'')
           then (if hashable name then Inr (jdict_set s name x) else Inl TypeError)
           else Inr s) = Inr s'"
  then show "jdict_ok s'"
    by (auto simp: bind_r_Inr_iff jdict_ok_set split: if_splits)
qed

lemma settings_by_id_ok:
  assumes "settings_by_id section = Inr d"
  shows "jdict_ok d"
proof -
  from assms obtain settings where
    f: "foldl_r (\<lambda>acc s.
          bind_r (py_get s ''id'' JNull) (\<lambda>i.
            if truthy i
            then (if hashable i then Inr (jdict_set acc i s) else Inl TypeError)
            else Inr acc)) [] settings = Inr d"
    by (auto simp: settings_by_id_def bind_r_Inr_iff)
  show ?thesis
  proof (rule foldl_r_preserves [OF f, of jdict_ok])
    show "jdict_ok ([] :: (json \<times> json) list)" by simp
  next
    fix s :: "(json \<times> json) list" and x s'
    assume "jdict_ok s"
      and "bind_r (py_get x ''id'' JNull) (\<lambda>i.
            if truthy i
            then (if hashable i then Inr (jdict_set s i x) else Inl TypeError)
            else Inr s) = Inr s'"
    then show "jdict_ok s'"
      by (auto simp: bind_r_Inr_iff jdict_ok_set split: if_splits)
  qed
qed

subsection \<open>The parts of a result\<close>

lemma analyze_settings_schema_parts:
  assumes "analyze_settings_schema E dawn_v10 current dawn_v15 = Inr r"
  shows "\<exists>v10_version current_version v15_version v10_sections current_sections v15_sections
          c1a c1b c2b c3b.
     sections_by_name dawn_v10 = Inr v10_sections \<and>
     sections_by_name current = Inr current_sections \<and>
     sections_by_name dawn_v15 = Inr v15_sections \<and>
     custom_sections_loop E v10_sections current_sections = Inr c1a \<and>
     common_sections_loop E (custom_addition E) (custom_modification E)
       v10_sections current_sections = Inr c1b \<and>
     common_sections_loop E (dawn_addition E) (dawn_modification E)
       v10_sections v15_sections = Inr c2b \<and>
     common_sections_loop E (conflict_addition E) (conflict_modification E)
       current_sections v15_sections = Inr c3b \<and>
     r = \<lparr>s_custom_additions = snd c1a @ fst c1b,
          s_modifications = snd c1b,
          s_removals = [],
          s_custom_sections = fst c1a,
          s_dawn_additions =
            added_sections_loop (dawn_section E) v10_sections v15_sections @ fst c2b,
          s_dawn_modifications = snd c2b,
          s_dawn_removals = [],
          s_conflict_additions =
            added_sections_loop (conflict_section E) current_sections v15_sections @ fst c3b,
          s_conflict_modifications = snd c3b,
          s_conflict_removals = [],
          theme_info_changes =
            version_changes v10_version current_version v15_version\<rparr>"
proof -
  from assms obtain v1 v2 v3 s1 s2 s3 c1a c1b c2b c3b where
    s: "sections_by_name dawn_v10 = Inr s1" "sections_by_name current = Inr s2"
       "sections_by_name dawn_v15 = Inr s3"
    and c: "custom_sections_loop E s1 s2 = Inr c1a"
       "common_sections_loop E (custom_addition E) (custom_modification E) s1 s2 = Inr c1b"
       "common_sections_loop E (dawn_addition E) (dawn_modification E) s1 s3 = Inr c2b"
       "common_sections_loop E (conflict_addition E) (conflict_modification E) s2 s3 = Inr c3b"
    and r: "Inr \<lparr>s_custom_additions = snd c1a @ fst c1b,
          s_modifications = snd c1b,
          s_removals = [],
          s_custom_sections = fst c1a,
          s_dawn_additions = added_sections_loop (dawn_section E) s1 s3 @ fst c2b,
          s_dawn_modifications = snd c2b,
          s_dawn_removals = [],
          s_conflict_additions = added_sections_loop (conflict_section E) s2 s3 @ fst c3b,
          s_conflict_modifications = snd c3b,
          s_conflict_removals = [],
          theme_info_changes = version_changes v1 v2 v3\<rparr> = (Inr r :: py_error + schema_result)"
    unfolding analyze_settings_schema_def bind_r_Inr_iff by blast
  from r have "r = \<lparr>s_custom_additions = snd c1a @ fst c1b,
          s_modifications = snd c1b,
          s_removals = [],
          s_custom_sections = fst c1a,
          s_dawn_additions = added_sections_loop (dawn_section E) s1 s3 @ fst c2b,
          s_dawn_modifications = snd c2b,
          s_dawn_removals = [],
          s_conflict_additions = added_sections_loop (conflict_section E) s2 s3 @ fst c3b,
          s_conflict_modifications = snd c3b,
          s_conflict_removals = [],
          theme_info_changes = version_changes v1 v2 v3\<rparr>"
    by simp
  with s c show ?thesis by blast
qed

subsection \<open>Sections that the base lacks\<close>

lemma added_sections_loop_set:
  "set (added_sections_loop mk base_sections compare_sections) =
     mk ` {n \<in> fst ` set compare_sections. jdict_get base_sections n = None}"
  by (auto simp: added_sections_loop_def)

lemma new_section_settings_member:
  assumes "new_section_settings E name section = Inr adds"
    and "section_settings section = Inr settings"
    and "setting \<in> set settings"
    and "py_get setting ''id'' JNull = Inr i"
    and "truthy i"
  shows "\<exists>rec. custom_addition E i name setting = Inr rec \<and> rec \<in> set adds"
proof -
  let ?h = "\<lambda>setting.
       bind_r (py_get setting ''id'' JNull) (\<lambda>i.
         if truthy i
         then bind_r (custom_addition E i name setting) (\<lambda>r. Inr [r])
         else Inr [])"
  from assms(1,2) obtain rs where rs: "mapM_r ?h settings = Inr rs" and adds: "adds = concat rs"
    by (auto simp: new_section_settings_def bind_r_Inr_iff)
  from mapM_r_member [OF rs assms(3)] obtain ras where
    ras: "ras \<in> set rs" "?h setting = Inr ras" by blast
  from ras(2) assms(4,5) obtain rec where
    "custom_addition E i name setting = Inr rec" "ras = [rec]"
    by (auto simp: bind_r_Inr_iff)
  with ras(1) adds show ?thesis by force
qed

lemma custom_sections_loop_member:
  assumes "custom_sections_loop E base_sections compare_sections = Inr c"
    and "jdict_ok compare_sections"
    and "(name, section) \<in> set compare_sections"
    and "jdict_get base_sections name = None"
  shows "custom_section E name \<in> set (fst c) \<and>
         (\<exists>adds. new_section_settings E name section = Inr adds \<and> set adds \<subseteq> set (snd c))"
proof -
  let ?g = "\<lambda>section_name.
       if jdict_get base_sections section_name = None
       then bind_r (jdict_item compare_sections section_name) (\<lambda>section.
            bind_r (new_section_settings E section_name section) (\<lambda>adds.
            Inr ([custom_section E section_name], adds)))
       else Inr ([], [])"
  from assms(1) obtain ps where
    ps: "mapM_r ?g (map fst compare_sections) = Inr ps"
    and c: "c = (concat (map fst ps), concat (map snd ps))"
    by (auto simp: custom_sections_loop_def bind_r_Inr_iff)
  have "name \<in> set (map fst compare_sections)"
    using assms(3) by force
  from mapM_r_member [OF ps this] obtain p where p: "p \<in> set ps" "?g name = Inr p"
    by blast
  have item: "jdict_item compare_sections name = Inr section"
    by (rule jdict_item_ok [OF assms(2,3)])
  from p(2) assms(4) item obtain adds where
    adds: "new_section_settings E name section = Inr adds"
    and pe: "p = ([custom_section E name], adds)"
    by (auto simp: bind_r_Inr_iff)
  have "custom_section E name \<in> set (fst c)"
    using p(1) pe c by force
  moreover have "set adds \<subseteq> set (snd c)"
    using p(1) pe c by force
  ultimately show ?thesis using adds by blast
qed

subsection \<open>Where a record of a setting comes from\<close>

lemma setting_record_fields:
  assumes "setting_record cmp describe i n s = Inr rec"
  shows "\<exists>ty label d. rec = JObj [(''id'', i), (''section'', n), (''comparison'', JStr cmp),
           (''type'', ty), (''label'', label), (''description'', JStr d)]"
  using assms by (auto simp: setting_record_def bind_r_Inr_iff)

lemma setting_record_section:
  assumes "setting_record cmp describe i n s = Inr rec"
    and "setting_record cmp' describe' i' n' s' = Inr rec"
  shows "n' = n"
  using setting_record_fields [OF assms(1)] setting_record_fields [OF assms(2)] by auto

lemma setting_record_not_section:
  "setting_record cmp describe i n s \<noteq> Inr (section_record E cmp' lead trail n')"
proof
  assume "setting_record cmp describe i n s = Inr (section_record E cmp' lead trail n')"
  from setting_record_fields [OF this] show False
    by (auto simp: section_record_def)
qed

lemma compare_settings_adds:
  assumes "compare_settings E mk_add mk_mod n b c = Inr res"
    and "rec \<in> set (fst res)"
  shows "\<exists>i s. mk_add i n s = Inr rec"
proof -
  from assms(1) obtain bs cs :: "(json \<times> json) list" and adds where
    adds: "mapM_r (\<lambda>(setting_id, setting).
               if jdict_get bs setting_id = None
               then bind_r (mk_add setting_id n setting) (\<lambda>r. Inr [r])
               else Inr []) cs = Inr adds"
    and res: "fst res = concat adds"
    by (auto simp: compare_settings_def bind_r_Inr_iff)
  from assms(2) res obtain ys where ys: "ys \<in> set adds" "rec \<in> set ys" by auto
  from adds ys(1) obtain x where x: "x \<in> set cs"
    "(case x of (setting_id, setting) \<Rightarrow>
               if jdict_get bs setting_id = None
               then bind_r (mk_add setting_id n setting) (\<lambda>r. Inr [r])
               else Inr []) = Inr ys"
    by (auto simp: mapM_r_Inr_iff)
  obtain i s where "x = (i, s)" by (cases x)
  with x(2) ys(2) have "mk_add i n s = Inr rec"
    by (auto simp: bind_r_Inr_iff split: if_splits)
  then show ?thesis by blast
qed

lemma common_sections_loop_adds:
  assumes "common_sections_loop E mk_add mk_mod bs cs = Inr res"
    and "rec \<in> set (fst res)"
  shows "\<exists>n b i s. jdict_get bs n = Some b \<and> mk_add i n s = Inr rec"
proof -
  let ?f = "\<lambda>section_name.
               bind_r (jdict_item bs section_name) (\<lambda>base_section.
               bind_r (jdict_item cs section_name) (\<lambda>compare_section.
               compare_settings E mk_add mk_mod section_name base_section compare_section))"
  from assms(1) obtain ps where
    ps: "mapM_r ?f (set_iter E (keys_and bs cs)) = Inr ps"
    and res: "fst res = concat (map fst ps)"
    by (auto simp: common_sections_loop_def bind_r_Inr_iff)
  from assms(2) res obtain p where p: "p \<in> set ps" "rec \<in> set (fst p)" by auto
  from ps p(1) obtain n where n: "?f n = Inr p"
    by (auto simp: mapM_r_Inr_iff)
  then obtain b c where b: "jdict_item bs n = Inr b"
    and c: "compare_settings E mk_add mk_mod n b c = Inr p"
    by (auto simp: bind_r_Inr_iff)
  from compare_settings_adds [OF c p(2)] b show ?thesis
    by (auto simp: jdict_item_Inr_iff)
qed

lemma no_setting_record_of_new_section:
  assumes "common_sections_loop E (setting_record cmp describe) mk_mod bs cs = Inr res"
    and "jdict_get bs name = None"
    and "setting_record cmp describe i name setting = Inr rec"
  shows "rec \<notin> set (added_sections_loop (section_record E cmp' lead trail) bs cs @ fst res)"
proof
  assume "rec \<in> set (added_sections_loop (section_record E cmp' lead trail) bs cs @ fst res)"
  then consider "rec \<in> set (added_sections_loop (section_record E cmp' lead trail) bs cs)"
    | "rec \<in> set (fst res)" by auto
  then show False
  proof cases
    case 1
    then obtain n' where "rec = section_record E cmp' lead trail n'"
      by (auto simp: added_sections_loop_set)
    with assms(3) setting_record_not_section show False by blast
  next
    case 2
    from common_sections_loop_adds [OF assms(1) 2]
    obtain n b i' s' where n: "jdict_get bs n = Some b"
      "setting_record cmp describe i' n s' = Inr rec" by blast
    from setting_record_section [OF assms(3) n(2)] n(1) assms(2) show False by simp
  qed
qed

text \<open>
  C1 (as amended).  When the function returns, a section of the compared snapshot whose
  name the base snapshot lacks is reported as follows.  Old upstream against custom:
  a section record in custom_sections, and one record in custom_additions for every
  setting of that section whose id is truthy.  Old upstream against new upstream, and
  custom against new upstream: a section record in the additions of the pair, and no
  record of a setting under that section name, whatever the setting and its id.  In
  these two comparisons every record of the additions is the section record of a
  section that the base lacks or the record of a setting of a section that the base has.
\<close>

theorem new_section_records:
  assumes "analyze_settings_schema E dawn_v10 current dawn_v15 = Inr r"
    and "sections_by_name dawn_v10 = Inr v10_sections"
    and "sections_by_name current = Inr current_sections"
    and "sections_by_name dawn_v15 = Inr v15_sections"
  shows
    "((name, section) \<in> set current_sections \<and> jdict_get v10_sections name = None \<longrightarrow>
        custom_section E name \<in> set (s_custom_sections r) \<and>
        (\<forall>settings setting i.
           section_settings section = Inr settings \<and> setting \<in> set settings \<and>
           py_get setting ''id'' JNull = Inr i \<and> truthy i \<longrightarrow>
           (\<exists>rec. custom_addition E i name setting = Inr rec \<and>
                  rec \<in> set (s_custom_additions r)))) \<and>
     ((name, section) \<in> set v15_sections \<and> jdict_get v10_sections name = None \<longrightarrow>
        dawn_section E name \<in> set (s_dawn_additions r) \<and>
        (\<forall>i setting rec. dawn_addition E i name setting = Inr rec \<longrightarrow>
           rec \<notin> set (s_dawn_additions r))) \<and>
     ((name, section) \<in> set v15_sections \<and> jdict_get current_sections name = None \<longrightarrow>
        conflict_section E name \<in> set (s_conflict_additions r) \<and>
        (\<forall>i setting rec. conflict_addition E i name setting = Inr rec \<longrightarrow>
           rec \<notin> set (s_conflict_additions r))) \<and>
     (\<forall>rec \<in> set (s_dawn_additions r).
        (\<exists>n \<in> fst ` set v15_sections. jdict_get v10_sections n = None \<and> rec = dawn_section E n) \<or>
        (\<exists>n b i setting. jdict_get v10_sections n = Some b \<and>
           dawn_addition E i n setting = Inr rec)) \<and>
     (\<forall>rec \<in> set (s_conflict_additions r).
        (\<exists>n \<in> fst ` set v15_sections. jdict_get current_sections n = None \<and>
           rec = conflict_section E n) \<or>
        (\<exists>n b i setting. jdict_get current_sections n = Some b \<and>
           conflict_addition E i n setting = Inr rec))"
proof -
  from analyze_settings_schema_parts [OF assms(1)] assms(2-4)
  obtain c1a c1b c2b c3b :: "json list \<times> json list" where
    c1a: "custom_sections_loop E v10_sections current_sections = Inr c1a"
    and c2b: "common_sections_loop E (dawn_addition E) (dawn_modification E)
                v10_sections v15_sections = Inr c2b"
    and c3b: "common_sections_loop E (conflict_addition E) (conflict_modification E)
                current_sections v15_sections = Inr c3b"
    and sec: "s_custom_sections r = fst c1a"
    and add: "s_custom_additions r = snd c1a @ fst c1b"
    and dawn: "s_dawn_additions r =
                 added_sections_loop (dawn_section E) v10_sections v15_sections @ fst c2b"
    and conf: "s_conflict_additions r =
                 added_sections_loop (conflict_section E) current_sections v15_sections @ fst c3b"
    by auto
  have ok: "jdict_ok current_sections"
    by (rule sections_by_name_ok [OF assms(3)])
  have one: "custom_section E name \<in> set (s_custom_sections r) \<and>
        (\<forall>settings setting i.
           section_settings section = Inr settings \<and> setting \<in> set settings \<and>
           py_get setting ''id'' JNull = Inr i \<and> truthy i \<longrightarrow>
           (\<exists>rec. custom_addition E i name setting = Inr rec \<and>
                  rec \<in> set (s_custom_additions r)))"
    if new: "(name, section) \<in> set current_sections" "jdict_get v10_sections name = None"
  proof -
    from custom_sections_loop_member [OF c1a ok new] obtain adds where
      s: "custom_section E name \<in> set (fst c1a)"
      and adds: "new_section_settings E name section = Inr adds" "set adds \<subseteq> set (snd c1a)"
      by blast
    have "\<exists>rec. custom_addition E i name setting = Inr rec \<and> rec \<in> set (s_custom_additions r)"
      if "section_settings section = Inr settings" "setting \<in> set settings"
        "py_get setting ''id'' JNull = Inr i" "truthy i" for settings setting i
      using new_section_settings_member [OF adds(1) that] adds(2) add by auto
    with s sec show ?thesis by auto
  qed
  have two: "dawn_section E name \<in> set (s_dawn_additions r)"
    if "(name, section) \<in> set v15_sections" "jdict_get v10_sections name = None"
    using that unfolding dawn by (force simp: added_sections_loop_set)
  have two_none: "rec \<notin> set (s_dawn_additions r)"
    if "jdict_get v10_sections name = None" "dawn_addition E i name setting = Inr rec"
    for i setting rec
    using no_setting_record_of_new_section [OF c2b [unfolded dawn_addition_def] that(1)
        that(2) [unfolded dawn_addition_def]]
    unfolding dawn dawn_section_def dawn_addition_def .
  have three: "conflict_section E name \<in> set (s_conflict_additions r)"
    if "(name, section) \<in> set v15_sections" "jdict_get current_sections name = None"
    using that unfolding conf by (force simp: added_sections_loop_set)
  have three_none: "rec \<notin> set (s_conflict_additions r)"
    if "jdict_get current_sections name = None" "conflict_addition E i name setting = Inr rec"
    for i setting rec
    using no_setting_record_of_new_section [OF c3b [unfolded conflict_addition_def] that(1)
        that(2) [unfolded conflict_addition_def]]
    unfolding conf conflict_section_def conflict_addition_def .
  have two_all: "(\<exists>n \<in> fst ` set v15_sections. jdict_get v10_sections n = None \<and>
           rec = dawn_section E n) \<or>
        (\<exists>n b i setting. jdict_get v10_sections n = Some b \<and>
           dawn_addition E i n setting = Inr rec)"
    if "rec \<in> set (s_dawn_additions r)" for rec
  proof -
    from that dawn consider
      "rec \<in> set (added_sections_loop (dawn_section E) v10_sections v15_sections)"
      | "rec \<in> set (fst c2b)" by auto
    then show ?thesis
    proof cases
      case 1
      then show ?thesis by (auto simp: added_sections_loop_set)
    next
      case 2
      from common_sections_loop_adds [OF c2b 2] show ?thesis by blast
    qed
  qed
  have three_all: "(\<exists>n \<in> fst ` set v15_sections. jdict_get current_sections n = None \<and>
           rec = conflict_section E n) \<or>
        (\<exists>n b i setting. jdict_get current_sections n = Some b \<and>
           conflict_addition E i n setting = Inr rec)"
    if "rec \<in> set (s_conflict_additions r)" for rec
  proof -
    from that conf consider
      "rec \<in> set (added_sections_loop (conflict_section E) current_sections v15_sections)"
      | "rec \<in> set (fst c3b)" by auto
    then show ?thesis
    proof cases
      case 1
      then show ?thesis by (auto simp: added_sections_loop_set)
    next
      case 2
      from common_sections_loop_adds [OF c3b 2] show ?thesis by blast
    qed
  qed
  have p1: "(name, section) \<in> set current_sections \<and> jdict_get v10_sections name = None \<longrightarrow>
        custom_section E name \<in> set (s_custom_sections r) \<and>
        (\<forall>settings setting i.
           section_settings section = Inr settings \<and> setting \<in> set settings \<and>
           py_get setting ''id'' JNull = Inr i \<and> truthy i \<longrightarrow>
           (\<exists>rec. custom_addition E i name setting = Inr rec \<and>
                  rec \<in> set (s_custom_additions r)))"
    using one by blast
  have p2: "(name, section) \<in> set v15_sections \<and> jdict_get v10_sections name = None \<longrightarrow>
        dawn_section E name \<in> set (s_dawn_additions r) \<and>
        (\<forall>i setting rec. dawn_addition E i name setting = Inr rec \<longrightarrow>
           rec \<notin> set (s_dawn_additions r))"
    using two two_none by blast
  have p3: "(name, section) \<in> set v15_sections \<and> jdict_get current_sections name = None \<longrightarrow>
        conflict_section E name \<in> set (s_conflict_additions r) \<and>
        (\<forall>i setting rec. conflict_addition E i name setting = Inr rec \<longrightarrow>
           rec \<notin> set (s_conflict_additions r))"
    using three three_none by blast
  have p4: "\<forall>rec \<in> set (s_dawn_additions r).
        (\<exists>n \<in> fst ` set v15_sections. jdict_get v10_sections n = None \<and> rec = dawn_section E n) \<or>
        (\<exists>n b i setting. jdict_get v10_sections n = Some b \<and>
           dawn_addition E i n setting = Inr rec)"
    using two_all by (rule ballI)
  have p5: "\<forall>rec \<in> set (s_conflict_additions r).
        (\<exists>n \<in> fst ` set v15_sections. jdict_get current_sections n = None \<and>
           rec = conflict_section E n) \<or>
        (\<exists>n b i setting. jdict_get current_sections n = Some b \<and>
           conflict_addition E i n setting = Inr rec)"
    using three_all by (rule ballI)
  show ?thesis
    by (rule conjI [OF p1 conjI [OF p2 conjI [OF p3 conjI [OF p4 p5]]]])
qed

subsection \<open>Snapshots on which nothing raises\<close>

lemma is_obj_get: "is_obj s \<Longrightarrow> \<exists>v. py_get s k d = Inr v"
  by (cases s) simp_all

lemma ws_section_obj: "ws_section s \<Longrightarrow> is_obj s"
  by (cases s) (simp_all add: ws_section_def)

lemma ws_setting_obj: "ws_setting s \<Longrightarrow> is_obj s"
  by (cases s) (simp_all add: ws_setting_def)

lemma find_theme_info_ok:
  "list_all is_obj items \<Longrightarrow> \<exists>t. find_theme_info items = Inr t \<and> is_obj t"
proof (induction items)
  case Nil
  then show ?case by simp
next
  case (Cons item items)
  then obtain kvs where "item = JObj kvs" by (cases item) simp_all
  with Cons show ?case by simp
qed

lemma ws_section_name:
  "ws_section item \<Longrightarrow> \<exists>n. py_get item ''name'' JNull = Inr n \<and> hashable n"
  by (cases item) (auto simp: ws_section_def split: option.splits)

lemma sections_by_name_total:
  assumes "list_all ws_section items"
  shows "\<exists>d. sections_by_name items = Inr d \<and> (\<forall>k v. (k, v) \<in> set d \<longrightarrow> ws_section v)"
  unfolding sections_by_name_def
proof (rule foldl_r_invariant [where I = "\<lambda>d. \<forall>k v. (k, v) \<in> set d \<longrightarrow> ws_section v"])
  show "\<forall>k v. (k, v) \<in> set ([] :: (json \<times> json) list) \<longrightarrow> ws_section v" by simp
next
  fix s :: "(json \<times> json) list" and x
  assume I: "\<forall>k v. (k, v) \<in> set s \<longrightarrow> ws_section v" and x: "x \<in> set items"
  from x assms have wx: "ws_section x" by (simp add: list_all_iff)
  from ws_section_name [OF wx] obtain n where n: "py_get x ''name'' JNull = Inr n" "hashable n"
    by blast
  have "\<forall>k v. (k, v) \<in> set (jdict_set s n x) \<longrightarrow> ws_section v"
    using I wx jdict_set_entries [of _ _ s n x] by blast
  with n I show "\<exists>s'. bind_r (py_get x ''name'' JNull) (\<lambda>name.
           if \<not> py_eq name (JStr ''theme_info'')
           then (if hashable name then Inr (jdict_set s name x) else Inl TypeError)
           else Inr s) = Inr s' \<and> (\<forall>k v. (k, v) \<in> set s' \<longrightarrow> ws_section v)"
    by simp
qed

lemma section_settings_total:
  "ws_section s \<Longrightarrow> \<exists>ss. section_settings s = Inr ss \<and> list_all ws_setting ss"
  by (cases s)
    (auto simp: ws_section_def section_settings_def split: option.splits json.splits)

lemma ws_setting_id:
  "ws_setting s \<Longrightarrow> \<exists>i. py_get s ''id'' JNull = Inr i \<and> (truthy i \<longrightarrow> hashable i)"
  by (cases s) (auto simp: ws_setting_def split: option.splits if_splits)

lemma settings_by_id_total:
  assumes "ws_section section"
  shows "\<exists>d. settings_by_id section = Inr d \<and>
              (\<forall>k v. (k, v) \<in> set d \<longrightarrow> truthy k \<and> is_obj v)"
proof -
  from section_settings_total [OF assms] obtain ss where
    ss: "section_settings section = Inr ss" "list_all ws_setting ss" by blast
  have "\<exists>d. foldl_r (\<lambda>acc s.
          bind_r (py_get s ''id'' JNull) (\<lambda>i.
            if truthy i
            then (if hashable i then Inr (jdict_set acc i s) else Inl TypeError)
            else Inr acc)) [] ss = Inr d \<and> (\<forall>k v. (k, v) \<in> set d \<longrightarrow> truthy k \<and> is_obj v)"
  proof (rule foldl_r_invariant [where I = "\<lambda>d. \<forall>k v. (k, v) \<in> set d \<longrightarrow> truthy k \<and> is_obj v"])
    show "\<forall>k v. (k, v) \<in> set ([] :: (json \<times> json) list) \<longrightarrow> truthy k \<and> is_obj v" by simp
  next
    fix s :: "(json \<times> json) list" and x
    assume I: "\<forall>k v. (k, v) \<in> set s \<longrightarrow> truthy k \<and> is_obj v" and x: "x \<in> set ss"
    from x ss(2) have wx: "ws_setting x" by (simp add: list_all_iff)
    from ws_setting_id [OF wx] obtain i where
      i: "py_get x ''id'' JNull = Inr i" "truthy i \<longrightarrow> hashable i" by blast
    have "\<forall>k v. (k, v) \<in> set (jdict_set s i x) \<longrightarrow> truthy k \<and> is_obj v" if "truthy i"
    proof (intro allI impI)
      fix k v assume "(k, v) \<in> set (jdict_set s i x)"
      from jdict_set_entries [OF this] I that ws_setting_obj [OF wx]
      show "truthy k \<and> is_obj v" by force
    qed
    with i I show "\<exists>s'. bind_r (py_get x ''id'' JNull) (\<lambda>i.
            if truthy i
            then (if hashable i then Inr (jdict_set s i x) else Inl TypeError)
            else Inr s) = Inr s' \<and> (\<forall>k v. (k, v) \<in> set s' \<longrightarrow> truthy k \<and> is_obj v)"
      by simp
  qed
  with ss(1) show ?thesis by (simp add: settings_by_id_def)
qed

lemma setting_record_total:
  assumes "is_obj s" and "truthy i" and "\<exists>d. describe i n s = Inr d"
  shows "\<exists>r. setting_record cmp describe i n s = Inr r \<and> entry_id_truthy r"
proof -
  from assms(1) obtain kvs where "s = JObj kvs" by (cases s) simp_all
  with assms(2,3) show ?thesis
    by (auto simp: setting_record_def entry_id_truthy_def)
qed

lemma modification_entry_total:
  assumes "is_obj s" and "truthy i" and "\<exists>d. describe i n s = Inr d"
  shows "\<exists>r. modification_entry cmp describe i n s ch = Inr r \<and> entry_id_truthy r"
proof -
  from assms(1) obtain kvs where "s = JObj kvs" by (cases s) simp_all
  with assms(2,3) show ?thesis
    by (auto simp: modification_entry_def entry_id_truthy_def)
qed

lemma describe_by_label_total: "is_obj s \<Longrightarrow> \<exists>d. describe_by_label E lead i n s = Inr d"
  by (cases s) (simp_all add: describe_by_label_def)

lemma describe_by_id_total: "\<exists>d. describe_by_id E lead i n s = Inr d"
  by (simp add: describe_by_id_def)

lemma additions_total:
  assumes "is_obj s" and "truthy i"
  shows "\<exists>r. custom_addition E i n s = Inr r \<and> entry_id_truthy r"
    and "\<exists>r. dawn_addition E i n s = Inr r \<and> entry_id_truthy r"
    and "\<exists>r. conflict_addition E i n s = Inr r \<and> entry_id_truthy r"
  unfolding custom_addition_def dawn_addition_def conflict_addition_def
  using assms by (simp_all add: setting_record_total describe_by_label_total describe_by_id_total)

lemma modifications_total:
  assumes "is_obj b" and "is_obj c" and "truthy i"
  shows "\<exists>r. custom_modification E i n b c ch = Inr r \<and> entry_id_truthy r"
    and "\<exists>r. dawn_modification E i n b c ch = Inr r \<and> entry_id_truthy r"
    and "\<exists>r. conflict_modification E i n b c ch = Inr r \<and> entry_id_truthy r"
  unfolding custom_modification_def dawn_modification_def conflict_modification_def
  using assms
  by (simp_all add: modification_entry_total describe_by_label_total describe_by_id_total)

lemma section_record_no_id: "entry_id_truthy (section_record E cmp lead trail n)"
  by (simp add: section_record_def entry_id_truthy_def)

lemma keys_and_member:
  assumes "k \<in> set (keys_and a b)" and "jdict_ok a" and "jdict_ok b"
  shows "\<exists>ka va kb vb. jdict_get a k = Some va \<and> jdict_get b k = Some vb \<and>
           (ka, va) \<in> set a \<and> (kb, vb) \<in> set b \<and> (k \<in> fst ` set a \<or> k \<in> fst ` set b)"
proof (cases "length b > length a")
  case True
  with assms(1) obtain va where va: "(k, va) \<in> set a" and nb: "jdict_get b k \<noteq> None"
    by (auto simp: keys_and_def)
  from nb obtain vb where vb: "jdict_get b k = Some vb" by auto
  from jdict_get_Some_mem [OF vb] obtain kb where "(kb, vb) \<in> set b" by blast
  with va vb jdict_ok_get [OF assms(2) va] show ?thesis by force
next
  case False
  with assms(1) obtain vb where vb: "(k, vb) \<in> set b" and na: "jdict_get a k \<noteq> None"
    by (auto simp: keys_and_def)
  from na obtain va where va: "jdict_get a k = Some va" by auto
  from jdict_get_Some_mem [OF va] obtain ka where "(ka, va) \<in> set a" by blast
  with va vb jdict_ok_get [OF assms(3) vb] show ?thesis by force
qed

lemma permuting_set: "permuting f \<Longrightarrow> set (f ks) = set ks"
  by (metis permuting_def mset_eq_setD)

lemma list_all_concat: "list_all (list_all P) xss \<Longrightarrow> list_all P (concat xss)"
  by (induction xss) simp_all

lemma compare_settings_total:
  assumes "ws_section b" and "ws_section c" and "permuting (set_iter E)"
    and add: "\<And>i s. truthy i \<Longrightarrow> is_obj s \<Longrightarrow> \<exists>r. mk_add i n s = Inr r \<and> entry_id_truthy r"
    and mod: "\<And>i s t ch. truthy i \<Longrightarrow> is_obj s \<Longrightarrow> is_obj t \<Longrightarrow>
                 \<exists>r. mk_mod i n s t ch = Inr r \<and> entry_id_truthy r"
  shows "\<exists>res. compare_settings E mk_add mk_mod n b c = Inr res \<and>
           list_all entry_id_truthy (fst res) \<and> list_all entry_id_truthy (snd res)"
proof -
  from settings_by_id_total [OF assms(1)] obtain bs where
    bs: "settings_by_id b = Inr bs" "\<forall>k v. (k, v) \<in> set bs \<longrightarrow> truthy k \<and> is_obj v" by blast
  from settings_by_id_total [OF assms(2)] obtain cs where
    cs: "settings_by_id c = Inr cs" "\<forall>k v. (k, v) \<in> set cs \<longrightarrow> truthy k \<and> is_obj v" by blast
  have okb: "jdict_ok bs" by (rule settings_by_id_ok [OF bs(1)])
  have okc: "jdict_ok cs" by (rule settings_by_id_ok [OF cs(1)])
  let ?fa = "\<lambda>(setting_id, setting).
               if jdict_get bs setting_id = None
               then bind_r (mk_add setting_id n setting) (\<lambda>r. Inr [r])
               else Inr []"
  have "\<exists>y. ?fa x = Inr y \<and> list_all entry_id_truthy y" if "x \<in> set cs" for x
  proof -
    obtain i s where x: "x = (i, s)" by (cases x)
    with that cs(2) have "truthy i" "is_obj s" by auto
    from add [OF this] show ?thesis unfolding x by auto
  qed
  from mapM_r_success [of cs ?fa "list_all entry_id_truthy", OF this]
  obtain adds where adds: "mapM_r ?fa cs = Inr adds" "list_all (list_all entry_id_truthy) adds"
    by blast
  let ?fm = "\<lambda>setting_id.
               bind_r (jdict_item bs setting_id) (\<lambda>b.
               bind_r (jdict_item cs setting_id) (\<lambda>c.
                 case deep_diff E b c of
                   None \<Rightarrow> Inr []
                 | Some changes \<Rightarrow>
                     bind_r (mk_mod setting_id n b c changes) (\<lambda>r. Inr [r])))"
  have "\<exists>y. ?fm k = Inr y \<and> list_all entry_id_truthy y"
    if "k \<in> set (set_iter E (keys_and bs cs))" for k
  proof -
    from that have "k \<in> set (keys_and bs cs)"
      using permuting_set [OF assms(3)] by simp
    from keys_and_member [OF this okb okc] obtain ka va kb vb where
      g: "jdict_get bs k = Some va" "jdict_get cs k = Some vb"
      and m: "(ka, va) \<in> set bs" "(kb, vb) \<in> set cs"
      and kk: "k \<in> fst ` set bs \<or> k \<in> fst ` set cs" by blast
    from m bs(2) cs(2) have o: "is_obj va" "is_obj vb" by auto
    from kk bs(2) cs(2) have t: "truthy k" by auto
    show ?thesis
    proof (cases "deep_diff E va vb")
      case None
      with g show ?thesis by (simp add: jdict_item_def)
    next
      case (Some ch)
      from mod [OF t o, of ch] obtain r where "mk_mod k n va vb ch = Inr r" "entry_id_truthy r"
        by blast
      with g Some show ?thesis by (simp add: jdict_item_def)
    qed
  qed
  from mapM_r_success [of "set_iter E (keys_and bs cs)" ?fm "list_all entry_id_truthy", OF this]
  obtain mods where mods: "mapM_r ?fm (set_iter E (keys_and bs cs)) = Inr mods"
    "list_all (list_all entry_id_truthy) mods" by blast
  have "compare_settings E mk_add mk_mod n b c = Inr (concat adds, concat mods)"
    by (simp add: compare_settings_def bs(1) cs(1) adds(1) mods(1))
  with adds(2) mods(2) show ?thesis by (simp add: list_all_concat)
qed

lemma common_sections_loop_total:
  assumes "jdict_ok bs" and "jdict_ok cs"
    and "\<forall>k v. (k, v) \<in> set bs \<longrightarrow> ws_section v"
    and "\<forall>k v. (k, v) \<in> set cs \<longrightarrow> ws_section v"
    and "permuting (set_iter E)"
    and add: "\<And>i n s. truthy i \<Longrightarrow> is_obj s \<Longrightarrow> \<exists>r. mk_add i n s = Inr r \<and> entry_id_truthy r"
    and mod: "\<And>i n s t ch. truthy i \<Longrightarrow> is_obj s \<Longrightarrow> is_obj t \<Longrightarrow>
                 \<exists>r. mk_mod i n s t ch = Inr r \<and> entry_id_truthy r"
  shows "\<exists>res. common_sections_loop E mk_add mk_mod bs cs = Inr res \<and>
           list_all entry_id_truthy (fst res) \<and> list_all entry_id_truthy (snd res)"
proof -
  let ?P = "\<lambda>res. list_all entry_id_truthy (fst res) \<and> list_all entry_id_truthy (snd res)"
  let ?f = "\<lambda>section_name.
               bind_r (jdict_item bs section_name) (\<lambda>base_section.
               bind_r (jdict_item cs section_name) (\<lambda>compare_section.
               compare_settings E mk_add mk_mod section_name base_section compare_section))"
  have "\<exists>y. ?f k = Inr y \<and> ?P y" if "k \<in> set (set_iter E (keys_and bs cs))" for k
  proof -
    from that have "k \<in> set (keys_and bs cs)"
      using permuting_set [OF assms(5)] by simp
    from keys_and_member [OF this assms(1,2)] obtain ka va kb vb where
      g: "jdict_get bs k = Some va" "jdict_get cs k = Some vb"
      and m: "(ka, va) \<in> set bs" "(kb, vb) \<in> set cs" by blast
    from m assms(3,4) have w: "ws_section va" "ws_section vb" by auto
    from compare_settings_total [OF w assms(5), of mk_add k mk_mod] add mod
    obtain res where "compare_settings E mk_add mk_mod k va vb = Inr res" "?P res" by blast
    with g show ?thesis by (simp add: jdict_item_def)
  qed
  from mapM_r_success [of "set_iter E (keys_and bs cs)" ?f ?P, OF this]
  obtain ps where ps: "mapM_r ?f (set_iter E (keys_and bs cs)) = Inr ps" "list_all ?P ps"
    by blast
  have "common_sections_loop E mk_add mk_mod bs cs
          = Inr (concat (map fst ps), concat (map snd ps))"
    by (simp add: common_sections_loop_def ps(1))
  moreover have "list_all entry_id_truthy (concat (map fst ps))"
    using ps(2) by (intro list_all_concat) (simp add: list_all_iff)
  moreover have "list_all entry_id_truthy (concat (map snd ps))"
    using ps(2) by (intro list_all_concat) (simp add: list_all_iff)
  ultimately show ?thesis by simp
qed

lemma new_section_settings_total:
  assumes "ws_section s"
  shows "\<exists>adds. new_section_settings E n s = Inr adds \<and> list_all entry_id_truthy adds"
proof -
  from section_settings_total [OF assms] obtain ss where
    ss: "section_settings s = Inr ss" "list_all ws_setting ss" by blast
  let ?h = "\<lambda>setting.
       bind_r (py_get setting ''id'' JNull) (\<lambda>i.
         if truthy i
         then bind_r (custom_addition E i n setting) (\<lambda>r. Inr [r])
         else Inr [])"
  have "\<exists>y. ?h x = Inr y \<and> list_all entry_id_truthy y" if "x \<in> set ss" for x
  proof -
    from that ss(2) have wx: "ws_setting x" by (simp add: list_all_iff)
    from ws_setting_id [OF wx] obtain i where i: "py_get x ''id'' JNull = Inr i" by blast
    show ?thesis
    proof (cases "truthy i")
      case True
      from additions_total(1) [OF ws_setting_obj [OF wx] True, of E n]
      obtain r where "custom_addition E i n x = Inr r" "entry_id_truthy r" by blast
      with i True show ?thesis by simp
    next
      case False
      with i show ?thesis by simp
    qed
  qed
  from mapM_r_success [of ss ?h "list_all entry_id_truthy", OF this]
  obtain rs where rs: "mapM_r ?h ss = Inr rs" "list_all (list_all entry_id_truthy) rs"
    by blast
  have "new_section_settings E n s = Inr (concat rs)"
    by (simp add: new_section_settings_def ss(1) rs(1))
  with rs(2) show ?thesis by (simp add: list_all_concat)
qed

lemma custom_sections_loop_total:
  assumes "jdict_ok cs" and "\<forall>k v. (k, v) \<in> set cs \<longrightarrow> ws_section v"
  shows "\<exists>res. custom_sections_loop E bs cs = Inr res \<and>
           list_all entry_id_truthy (fst res) \<and> list_all entry_id_truthy (snd res)"
proof -
  let ?P = "\<lambda>res. list_all entry_id_truthy (fst res) \<and> list_all entry_id_truthy (snd res)"
  let ?g = "\<lambda>section_name.
       if jdict_get bs section_name = None
       then bind_r (jdict_item cs section_name) (\<lambda>section.
            bind_r (new_section_settings E section_name section) (\<lambda>adds.
            Inr ([custom_section E section_name], adds)))
       else Inr ([], [])"
  have "\<exists>y. ?g k = Inr y \<and> ?P y" if "k \<in> set (map fst cs)" for k
  proof (cases "jdict_get bs k = None")
    case True
    from that obtain v where v: "(k, v) \<in> set cs" by auto
    with assms(2) have "ws_section v" by blast
    from new_section_settings_total [OF this, of E k] obtain adds where
      "new_section_settings E k v = Inr adds" "list_all entry_id_truthy adds" by blast
    with True jdict_item_ok [OF assms(1) v] show ?thesis
      by (simp add: custom_section_def section_record_no_id)
  next
    case False
    then obtain y where "jdict_get bs k = Some y" by auto
    then show ?thesis by simp
  qed
  from mapM_r_success [of "map fst cs" ?g ?P, OF this]
  obtain ps where ps: "mapM_r ?g (map fst cs) = Inr ps" "list_all ?P ps" by blast
  have "custom_sections_loop E bs cs = Inr (concat (map fst ps), concat (map snd ps))"
    by (simp add: custom_sections_loop_def ps(1))
  moreover have "list_all entry_id_truthy (concat (map fst ps))"
    using ps(2) by (intro list_all_concat) (simp add: list_all_iff)
  moreover have "list_all entry_id_truthy (concat (map snd ps))"
    using ps(2) by (intro list_all_concat) (simp add: list_all_iff)
  ultimately show ?thesis by simp
qed

lemma added_sections_loop_no_id:
  "list_all entry_id_truthy (added_sections_loop (section_record E cmp lead trail) bs cs)"
  by (auto simp: list_all_iff added_sections_loop_set section_record_no_id)

lemma analyze_settings_schema_total:
  assumes "list_all ws_section dawn_v10"
    and "list_all ws_section current"
    and "list_all ws_section dawn_v15"
    and "permuting (set_iter E)"
  shows "\<exists>r. analyze_settings_schema E dawn_v10 current dawn_v15 = Inr r \<and>
           list_all entry_id_truthy
             (s_custom_additions r @ s_modifications r @
              s_dawn_additions r @ s_dawn_modifications r @
              s_conflict_additions r @ s_conflict_modifications r)"
proof -
  have objs: "list_all is_obj dawn_v10" "list_all is_obj current" "list_all is_obj dawn_v15"
    using assms(1-3) by (simp_all add: list_all_iff ws_section_obj)
  from find_theme_info_ok [OF objs(1)] obtain t1 where
    t1: "find_theme_info dawn_v10 = Inr t1" "is_obj t1" by blast
  from find_theme_info_ok [OF objs(2)] obtain t2 where
    t2: "find_theme_info current = Inr t2" "is_obj t2" by blast
  from find_theme_info_ok [OF objs(3)] obtain t3 where
    t3: "find_theme_info dawn_v15 = Inr t3" "is_obj t3" by blast
  from is_obj_get [OF t1(2)] obtain v1 where v1: "py_get t1 ''theme_version'' JNull = Inr v1"
    by blast
  from is_obj_get [OF t2(2)] obtain v2 where v2: "py_get t2 ''theme_version'' JNull = Inr v2"
    by blast
  from is_obj_get [OF t3(2)] obtain v3 where v3: "py_get t3 ''theme_version'' JNull = Inr v3"
    by blast
  from sections_by_name_total [OF assms(1)] obtain s1 where
    s1: "sections_by_name dawn_v10 = Inr s1" "\<forall>k v. (k, v) \<in> set s1 \<longrightarrow> ws_section v"
    by blast
  from sections_by_name_total [OF assms(2)] obtain s2 where
    s2: "sections_by_name current = Inr s2" "\<forall>k v. (k, v) \<in> set s2 \<longrightarrow> ws_section v"
    by blast
  from sections_by_name_total [OF assms(3)] obtain s3 where
    s3: "sections_by_name dawn_v15 = Inr s3" "\<forall>k v. (k, v) \<in> set s3 \<longrightarrow> ws_section v"
    by blast
  note ok = sections_by_name_ok [OF s1(1)] sections_by_name_ok [OF s2(1)]
    sections_by_name_ok [OF s3(1)]
  from custom_sections_loop_total [OF ok(2) s2(2), of E s1] obtain c1a where
    c1a: "custom_sections_loop E s1 s2 = Inr c1a"
      "list_all entry_id_truthy (fst c1a)" "list_all entry_id_truthy (snd c1a)" by blast
  from common_sections_loop_total [OF ok(1) ok(2) s1(2) s2(2) assms(4),
      of "custom_addition E" "custom_modification E"]
    additions_total(1) modifications_total(1)
  obtain c1b where
    c1b: "common_sections_loop E (custom_addition E) (custom_modification E) s1 s2 = Inr c1b"
      "list_all entry_id_truthy (fst c1b)" "list_all entry_id_truthy (snd c1b)" by blast
  from common_sections_loop_total [OF ok(1) ok(3) s1(2) s3(2) assms(4),
      of "dawn_addition E" "dawn_modification E"]
    additions_total(2) modifications_total(2)
  obtain c2b where
    c2b: "common_sections_loop E (dawn_addition E) (dawn_modification E) s1 s3 = Inr c2b"
      "list_all entry_id_truthy (fst c2b)" "list_all entry_id_truthy (snd c2b)" by blast
  from common_sections_loop_total [OF ok(2) ok(3) s2(2) s3(2) assms(4),
      of "conflict_addition E" "conflict_modification E"]
    additions_total(3) modifications_total(3)
  obtain c3b where
    c3b: "common_sections_loop E (conflict_addition E) (conflict_modification E) s2 s3 = Inr c3b"
      "list_all entry_id_truthy (fst c3b)" "list_all entry_id_truthy (snd c3b)" by blast
  have secs: "list_all entry_id_truthy (added_sections_loop (dawn_section E) s1 s3)"
    "list_all entry_id_truthy (added_sections_loop (conflict_section E) s2 s3)"
    unfolding dawn_section_def conflict_section_def by (rule added_sections_loop_no_id)+
  show ?thesis
    unfolding analyze_settings_schema_def
    by (simp add: t1(1) t2(1) t3(1) v1 v2 v3 s1(1) s2(1) s3(1) c1a c1b c2b c3b secs)
qed

subsection \<open>Settings without an id\<close>

lemma foldl_r_filter:
  assumes "\<And>acc x. x \<in> set xs \<Longrightarrow> \<not> P x \<Longrightarrow> f acc x = Inr acc"
  shows "foldl_r f acc (filter P xs) = foldl_r f acc xs"
  using assms
proof (induction xs arbitrary: acc)
  case Nil
  then show ?case by simp
next
  case (Cons x xs)
  then show ?case by (cases "P x") (simp_all add: bind_r_def split: sum.splits)
qed

lemma mapM_r_concat_filter:
  assumes "\<And>x. x \<in> set xs \<Longrightarrow> \<not> P x \<Longrightarrow> f x = Inr []"
  shows "bind_r (mapM_r f (filter P xs)) (\<lambda>rs. Inr (concat rs)) =
         bind_r (mapM_r f xs) (\<lambda>rs. Inr (concat rs))"
  using assms
proof (induction xs)
  case Nil
  then show ?case by simp
next
  case (Cons x xs)
  then have IH: "bind_r (mapM_r f (filter P xs)) (\<lambda>rs. Inr (concat rs)) =
         bind_r (mapM_r f xs) (\<lambda>rs. Inr (concat rs))"
    by simp
  show ?case
  proof (cases "P x")
    case True
    with IH show ?thesis
      by (cases "f x"; cases "mapM_r f xs"; cases "mapM_r f (filter P xs)")
        (simp_all add: bind_r_def)
  next
    case False
    with Cons.prems have "f x = Inr []" by simp
    with IH False show ?thesis
      by (cases "mapM_r f xs"; cases "mapM_r f (filter P xs)") (simp_all add: bind_r_def)
  qed
qed

lemma lacks_id_get:
  "lacks_id s \<Longrightarrow> \<exists>i. py_get s ''id'' JNull = Inr i \<and> \<not> truthy i"
  by (cases s) (auto simp: lacks_id_def split: option.splits)

lemma map_of_map_values:
  "map_of (map (\<lambda>(k, v). (k, g k v)) kvs) k = map_option (g k) (map_of kvs k)"
  by (induction kvs) auto

lemma without_idless_get:
  "k \<noteq> ''settings'' \<Longrightarrow> py_get (without_idless s) k d = py_get s k d"
  by (cases s) (simp_all add: without_idless_def map_of_map_values split: option.splits)

lemma filter_none_lacks_id:
  "\<forall>x\<in>set xs. \<not> lacks_id x \<Longrightarrow> filter (\<lambda>s. \<not> lacks_id s) xs = xs"
  by (induction xs) simp_all

lemma py_iter_without_idless:
  "py_iter (case v of JArr xs \<Rightarrow> JArr (filter (\<lambda>s. \<not> lacks_id s) xs) | _ \<Rightarrow> v) =
     (case py_iter v of Inl e \<Rightarrow> Inl e | Inr xs \<Rightarrow> Inr (filter (\<lambda>s. \<not> lacks_id s) xs))"
proof (cases v)
  case (JObj kvs)
  have "\<forall>x\<in>set (map (\<lambda>(k, v). JStr k) kvs). \<not> lacks_id x"
    by (auto simp: lacks_id_def)
  from filter_none_lacks_id [OF this] JObj show ?thesis by simp
next
  case (JStr s)
  have "\<forall>x\<in>set (map (\<lambda>c. JStr [c]) s). \<not> lacks_id x"
    by (auto simp: lacks_id_def)
  from filter_none_lacks_id [OF this] JStr show ?thesis by simp
qed simp_all

lemma section_settings_without_idless:
  "section_settings (without_idless s) =
     (case section_settings s of
        Inl e \<Rightarrow> Inl e
      | Inr xs \<Rightarrow> Inr (filter (\<lambda>s. \<not> lacks_id s) xs))"
proof (cases s)
  case (JObj kvs)
  show ?thesis
  proof (cases "map_of kvs ''settings''")
    case None
    with JObj show ?thesis
      by (simp add: section_settings_def without_idless_def map_of_map_values)
  next
    case (Some v)
    with JObj show ?thesis
      using py_iter_without_idless [of v]
      by (simp add: section_settings_def without_idless_def map_of_map_values)
  qed
qed (simp_all add: section_settings_def without_idless_def)

lemma settings_by_id_without_idless:
  "settings_by_id (without_idless s) = settings_by_id s"
proof (cases "section_settings s")
  case (Inl e)
  then show ?thesis by (simp add: settings_by_id_def section_settings_without_idless)
next
  case (Inr xs)
  let ?f = "\<lambda>acc s.
          bind_r (py_get s ''id'' JNull) (\<lambda>i.
            if truthy i
            then (if hashable i then Inr (jdict_set acc i s) else Inl TypeError)
            else Inr acc)"
  have "foldl_r ?f [] (filter (\<lambda>s. \<not> lacks_id s) xs) = foldl_r ?f [] xs"
  proof (rule foldl_r_filter)
    fix acc :: "(json \<times> json) list" and x
    assume "\<not> \<not> lacks_id x"
    then obtain i where "py_get x ''id'' JNull = Inr i" "\<not> truthy i"
      using lacks_id_get by blast
    then show "?f acc x = Inr acc" by simp
  qed
  with Inr show ?thesis by (simp add: settings_by_id_def section_settings_without_idless)
qed

lemma new_section_settings_without_idless:
  "new_section_settings E n (without_idless s) = new_section_settings E n s"
proof (cases "section_settings s")
  case (Inl e)
  then show ?thesis by (simp add: new_section_settings_def section_settings_without_idless)
next
  case (Inr xs)
  let ?f = "\<lambda>setting.
               bind_r (py_get setting ''id'' JNull) (\<lambda>i.
                 if truthy i
                 then bind_r (custom_addition E i n setting) (\<lambda>r. Inr [r])
                 else Inr [])"
  have "bind_r (mapM_r ?f (filter (\<lambda>s. \<not> lacks_id s) xs)) (\<lambda>rs. Inr (concat rs)) =
        bind_r (mapM_r ?f xs) (\<lambda>rs. Inr (concat rs))"
  proof (rule mapM_r_concat_filter)
    fix x
    assume "\<not> \<not> lacks_id x"
    then obtain i where "py_get x ''id'' JNull = Inr i" "\<not> truthy i"
      using lacks_id_get by blast
    then show "?f x = Inr []" by simp
  qed
  with Inr show ?thesis by (simp add: new_section_settings_def section_settings_without_idless)
qed

lemma compare_settings_without_idless:
  "compare_settings E mk_add mk_mod n (without_idless b) (without_idless c) =
   compare_settings E mk_add mk_mod n b c"
  by (simp add: compare_settings_def settings_by_id_without_idless)

lemma jdict_get_map_values:
  "jdict_get (map (apsnd g) d) k = map_option g (jdict_get d k)"
  by (induction d) auto

lemma jdict_set_map_values:
  "jdict_set (map (apsnd g) d) k (g v) = map (apsnd g) (jdict_set d k v)"
  by (induction d) auto

lemma jdict_item_map_values:
  "jdict_item (map (apsnd g) d) k =
     (case jdict_item d k of Inl e \<Rightarrow> Inl e | Inr v \<Rightarrow> Inr (g v))"
  by (simp add: jdict_item_def jdict_get_map_values split: option.splits)

lemma keys_and_map_values:
  "keys_and (map (apsnd g) a) (map (apsnd h) b) = keys_and a b"
  by (simp add: keys_and_def jdict_get_map_values comp_def)

lemma find_theme_info_without_idless:
  "find_theme_info (map without_idless items) =
     (case find_theme_info items of Inl e \<Rightarrow> Inl e | Inr t \<Rightarrow> Inr (without_idless t))"
  by (induction items)
    (simp_all add: without_idless_get without_idless_def [of "JObj []"] bind_r_def
      split: sum.splits)

lemma sections_fold_without_idless:
  "foldl_r (\<lambda>acc item.
        bind_r (py_get item ''name'' JNull) (\<lambda>name.
          if \<not> py_eq name (JStr ''theme_info'')
          then (if hashable name then Inr (jdict_set acc name item) else Inl TypeError)
          else Inr acc))
       (map (apsnd without_idless) acc) (map without_idless items) =
   (case foldl_r (\<lambda>acc item.
        bind_r (py_get item ''name'' JNull) (\<lambda>name.
          if \<not> py_eq name (JStr ''theme_info'')
          then (if hashable name then Inr (jdict_set acc name item) else Inl TypeError)
          else Inr acc))
       acc items of
      Inl e \<Rightarrow> Inl e
    | Inr d \<Rightarrow> Inr (map (apsnd without_idless) d))"
proof (induction items arbitrary: acc)
  case Nil
  then show ?case by simp
next
  case (Cons item items)
  show ?case
  proof (cases "py_get item ''name'' JNull")
    case (Inl e)
    then show ?thesis by (simp add: without_idless_get)
  next
    case (Inr name)
    with Cons.IH [of acc] Cons.IH [of "jdict_set acc name item"] show ?thesis
      by (simp add: without_idless_get jdict_set_map_values)
  qed
qed

lemma sections_by_name_without_idless:
  "sections_by_name (map without_idless items) =
     (case sections_by_name items of
        Inl e \<Rightarrow> Inl e
      | Inr d \<Rightarrow> Inr (map (apsnd without_idless) d))"
  using sections_fold_without_idless [of "[]" items] by (simp add: sections_by_name_def)

lemma custom_sections_loop_without_idless:
  "custom_sections_loop E (map (apsnd without_idless) bs) (map (apsnd without_idless) cs) =
   custom_sections_loop E bs cs"
proof -
  have "(\<lambda>section_name.
               if jdict_get (map (apsnd without_idless) bs) section_name = None
               then bind_r (jdict_item (map (apsnd without_idless) cs) section_name) (\<lambda>section.
                    bind_r (new_section_settings E section_name section) (\<lambda>adds.
                    Inr ([custom_section E section_name], adds)))
               else Inr ([], [])) =
        (\<lambda>section_name.
               if jdict_get bs section_name = None
               then bind_r (jdict_item cs section_name) (\<lambda>section.
                    bind_r (new_section_settings E section_name section) (\<lambda>adds.
                    Inr ([custom_section E section_name], adds)))
               else Inr ([], []))"
    by (rule ext)
      (simp add: jdict_get_map_values jdict_item_map_values
        new_section_settings_without_idless split: sum.splits)
  then show ?thesis by (simp add: custom_sections_loop_def comp_def)
qed

lemma common_sections_loop_without_idless:
  "common_sections_loop E mk_add mk_mod
     (map (apsnd without_idless) bs) (map (apsnd without_idless) cs) =
   common_sections_loop E mk_add mk_mod bs cs"
proof -
  have "(\<lambda>section_name.
               bind_r (jdict_item (map (apsnd without_idless) bs) section_name) (\<lambda>base_section.
               bind_r (jdict_item (map (apsnd without_idless) cs) section_name) (\<lambda>compare_section.
               compare_settings E mk_add mk_mod section_name base_section compare_section))) =
        (\<lambda>section_name.
               bind_r (jdict_item bs section_name) (\<lambda>base_section.
               bind_r (jdict_item cs section_name) (\<lambda>compare_section.
               compare_settings E mk_add mk_mod section_name base_section compare_section)))"
    by (rule ext)
      (simp add: jdict_item_map_values compare_settings_without_idless split: sum.splits)
  then show ?thesis by (simp add: common_sections_loop_def keys_and_map_values)
qed

lemma added_sections_loop_without_idless:
  "added_sections_loop mk (map (apsnd without_idless) bs) (map (apsnd without_idless) cs) =
   added_sections_loop mk bs cs"
  by (simp add: added_sections_loop_def jdict_get_map_values comp_def)

lemma analyze_settings_schema_without_idless:
  "analyze_settings_schema E (map without_idless dawn_v10) (map without_idless current)
     (map without_idless dawn_v15) =
   analyze_settings_schema E dawn_v10 current dawn_v15"
  by (cases "find_theme_info dawn_v10"; cases "find_theme_info current";
      cases "find_theme_info dawn_v15"; cases "sections_by_name dawn_v10";
      cases "sections_by_name current"; cases "sections_by_name dawn_v15")
    (simp_all add: analyze_settings_schema_def find_theme_info_without_idless
      sections_by_name_without_idless without_idless_get
      custom_sections_loop_without_idless common_sections_loop_without_idless
      added_sections_loop_without_idless)

subsection \<open>Sections without a name\<close>

lemma py_eq_null: "py_eq k JNull \<longleftrightarrow> k = JNull"
  by (cases k) simp_all

lemma jdict_get_set_same:
  "py_eq k k \<Longrightarrow> jdict_get (jdict_set d k v) k = Some v"
  by (induction d) auto

lemma jdict_get_set_null:
  "k \<noteq> JNull \<Longrightarrow> jdict_get (jdict_set d k v) JNull = jdict_get d JNull"
  by (induction d) (auto simp: py_eq_null)

lemma sections_fold_null:
  assumes "foldl_r (\<lambda>acc item.
        bind_r (py_get item ''name'' JNull) (\<lambda>name.
          if \<not> py_eq name (JStr ''theme_info'')
          then (if hashable name then Inr (jdict_set acc name item) else Inl TypeError)
          else Inr acc))
       acc items = Inr d"
  shows "jdict_get d JNull =
           (if list_ex nameless items then Some (last (filter nameless items))
            else jdict_get acc JNull)"
  using assms
proof (induction items arbitrary: acc)
  case Nil
  then show ?case by simp
next
  case (Cons item items)
  from Cons.prems obtain name where name: "py_get item ''name'' JNull = Inr name"
    by (auto simp: bind_r_Inr_iff)
  show ?case
  proof (cases "name = JNull")
    case True
    with name Cons.prems have
      "foldl_r (\<lambda>acc item.
        bind_r (py_get item ''name'' JNull) (\<lambda>name.
          if \<not> py_eq name (JStr ''theme_info'')
          then (if hashable name then Inr (jdict_set acc name item) else Inl TypeError)
          else Inr acc))
       (jdict_set acc JNull item) items = Inr d"
      by simp
    moreover from True name have "nameless item"
      by (simp add: nameless_def)
    ultimately show ?thesis
      using Cons.IH [of "jdict_set acc JNull item"]
      by (auto simp: list_ex_iff filter_empty_conv jdict_get_set_same)
  next
    case False
    with name have ni: "\<not> nameless item"
      by (simp add: nameless_def)
    show ?thesis
    proof (cases "\<not> py_eq name (JStr ''theme_info'')")
      case True
      with name Cons.prems have
        "foldl_r (\<lambda>acc item.
          bind_r (py_get item ''name'' JNull) (\<lambda>name.
            if \<not> py_eq name (JStr ''theme_info'')
            then (if hashable name then Inr (jdict_set acc name item) else Inl TypeError)
            else Inr acc))
         (jdict_set acc name item) items = Inr d"
        by (cases "hashable name") simp_all
      from Cons.IH [OF this] False ni show ?thesis
        by (simp add: jdict_get_set_null)
    next
      case no: False
      with name Cons.prems have
        "foldl_r (\<lambda>acc item.
          bind_r (py_get item ''name'' JNull) (\<lambda>name.
            if \<not> py_eq name (JStr ''theme_info'')
            then (if hashable name then Inr (jdict_set acc name item) else Inl TypeError)
            else Inr acc))
         acc items = Inr d"
        by simp
      from Cons.IH [OF this] ni show ?thesis
        by simp
    qed
  qed
qed

lemma sections_by_name_null:
  assumes "sections_by_name items = Inr d"
  shows "jdict_get d JNull =
           (if list_ex nameless items then Some (last (filter nameless items)) else None)"
  using sections_fold_null [OF assms [unfolded sections_by_name_def]] by simp

lemma sections_by_name_null_member:
  assumes "sections_by_name items = Inr d" and "list_ex nameless items"
  shows "(JNull, last (filter nameless items)) \<in> set d"
proof -
  from sections_by_name_null [OF assms(1)] assms(2)
  have "jdict_get d JNull = Some (last (filter nameless items))" by simp
  from jdict_get_Some_mem [OF this] show ?thesis by (auto simp: py_eq_null)
qed

lemma nameless_sections_reported:
  assumes "analyze_settings_schema E dawn_v10 current dawn_v15 = Inr r"
  shows "list_ex nameless current \<and> \<not> list_ex nameless dawn_v10 \<longrightarrow>
           custom_section E JNull \<in> set (s_custom_sections r) \<and>
           (\<forall>settings setting i.
              section_settings (last (filter nameless current)) = Inr settings \<and>
              setting \<in> set settings \<and> py_get setting ''id'' JNull = Inr i \<and> truthy i \<longrightarrow>
              (\<exists>rec. custom_addition E i JNull setting = Inr rec \<and>
                     rec \<in> set (s_custom_additions r)))"
    and "list_ex nameless dawn_v15 \<and> \<not> list_ex nameless dawn_v10 \<longrightarrow>
           dawn_section E JNull \<in> set (s_dawn_additions r)"
    and "list_ex nameless dawn_v15 \<and> \<not> list_ex nameless current \<longrightarrow>
           conflict_section E JNull \<in> set (s_conflict_additions r)"
proof -
  from analyze_settings_schema_parts [OF assms]
  obtain v10_sections current_sections v15_sections :: "(json \<times> json) list"
    and c1a c1b c2b c3b :: "json list \<times> json list" where
    s1: "sections_by_name dawn_v10 = Inr v10_sections"
    and s2: "sections_by_name current = Inr current_sections"
    and s3: "sections_by_name dawn_v15 = Inr v15_sections"
    and c1a: "custom_sections_loop E v10_sections current_sections = Inr c1a"
    and sec: "s_custom_sections r = fst c1a"
    and add: "s_custom_additions r = snd c1a @ fst c1b"
    and dawn: "s_dawn_additions r =
                 added_sections_loop (dawn_section E) v10_sections v15_sections @ fst c2b"
    and conf: "s_conflict_additions r =
                 added_sections_loop (conflict_section E) current_sections v15_sections @ fst c3b"
    by auto
  have ok: "jdict_ok current_sections"
    by (rule sections_by_name_ok [OF s2])
  show "list_ex nameless current \<and> \<not> list_ex nameless dawn_v10 \<longrightarrow>
           custom_section E JNull \<in> set (s_custom_sections r) \<and>
           (\<forall>settings setting i.
              section_settings (last (filter nameless current)) = Inr settings \<and>
              setting \<in> set settings \<and> py_get setting ''id'' JNull = Inr i \<and> truthy i \<longrightarrow>
              (\<exists>rec. custom_addition E i JNull setting = Inr rec \<and>
                     rec \<in> set (s_custom_additions r)))"
  proof
    assume a: "list_ex nameless current \<and> \<not> list_ex nameless dawn_v10"
    then have mem: "(JNull, last (filter nameless current)) \<in> set current_sections"
      using sections_by_name_null_member [OF s2] by simp
    from a have none: "jdict_get v10_sections JNull = None"
      using sections_by_name_null [OF s1] by simp
    from custom_sections_loop_member [OF c1a ok mem none] obtain adds where
      s: "custom_section E JNull \<in> set (fst c1a)"
      and adds: "new_section_settings E JNull (last (filter nameless current)) = Inr adds"
        "set adds \<subseteq> set (snd c1a)"
      by blast
    have "\<exists>rec. custom_addition E i JNull setting = Inr rec \<and> rec \<in> set (s_custom_additions r)"
      if "section_settings (last (filter nameless current)) = Inr settings"
        "setting \<in> set settings" "py_get setting ''id'' JNull = Inr i" "truthy i"
      for settings setting i
      using new_section_settings_member [OF adds(1) that] adds(2) add by auto
    with s sec show "custom_section E JNull \<in> set (s_custom_sections r) \<and>
           (\<forall>settings setting i.
              section_settings (last (filter nameless current)) = Inr settings \<and>
              setting \<in> set settings \<and> py_get setting ''id'' JNull = Inr i \<and> truthy i \<longrightarrow>
              (\<exists>rec. custom_addition E i JNull setting = Inr rec \<and>
                     rec \<in> set (s_custom_additions r)))"
      by auto
  qed
  show "list_ex nameless dawn_v15 \<and> \<not> list_ex nameless dawn_v10 \<longrightarrow>
           dawn_section E JNull \<in> set (s_dawn_additions r)"
  proof
    assume a: "list_ex nameless dawn_v15 \<and> \<not> list_ex nameless dawn_v10"
    then have "(JNull, last (filter nameless dawn_v15)) \<in> set v15_sections"
      using sections_by_name_null_member [OF s3] by simp
    moreover from a have "jdict_get v10_sections JNull = None"
      using sections_by_name_null [OF s1] by simp
    ultimately show "dawn_section E JNull \<in> set (s_dawn_additions r)"
      unfolding dawn by (force simp: added_sections_loop_set)
  qed
  show "list_ex nameless dawn_v15 \<and> \<not> list_ex nameless current \<longrightarrow>
           conflict_section E JNull \<in> set (s_conflict_additions r)"
  proof
    assume a: "list_ex nameless dawn_v15 \<and> \<not> list_ex nameless current"
    then have "(JNull, last (filter nameless dawn_v15)) \<in> set v15_sections"
      using sections_by_name_null_member [OF s3] by simp
    moreover from a have "jdict_get current_sections JNull = None"
      using sections_by_name_null [OF s2] by simp
    ultimately show "conflict_section E JNull \<in> set (s_conflict_additions r)"
      unfolding conf by (force simp: added_sections_loop_set)
  qed
qed

text \<open>
  C6 (as amended).  On snapshots whose sections are objects with a hashable name (or
  none) and with settings that are a list of objects (or absent) whose truthy ids are
  hashable, the function returns a result, whatever the order in which the sets of
  common keys are iterated.  A setting that lacks an id, or whose id is falsy, is
  skipped: no record of the result is the record of such a setting, and the result
  is the one obtained with these settings taken out of the snapshots.  A section
  without a name is not skipped.  It is kept under the key \<open>None\<close> (the last such section
  of a snapshot, as with any repeated name), and where the base snapshot has no such
  section it is reported as a new section of that name: the section record, and in the
  first comparison the records of its settings with a truthy id.
\<close>

theorem comparator_total_on_well_shaped:
  assumes "list_all ws_section dawn_v10"
    and "list_all ws_section current"
    and "list_all ws_section dawn_v15"
    and "permuting (set_iter E)"
  shows "\<exists>r. analyze_settings_schema E dawn_v10 current dawn_v15 = Inr r \<and>
           list_all entry_id_truthy
             (s_custom_additions r @ s_modifications r @
              s_dawn_additions r @ s_dawn_modifications r @
              s_conflict_additions r @ s_conflict_modifications r) \<and>
           analyze_settings_schema E (map without_idless dawn_v10) (map without_idless current)
             (map without_idless dawn_v15) = Inr r \<and>
           (list_ex nameless current \<and> \<not> list_ex nameless dawn_v10 \<longrightarrow>
              custom_section E JNull \<in> set (s_custom_sections r) \<and>
              (\<forall>settings setting i.
                 section_settings (last (filter nameless current)) = Inr settings \<and>
                 setting \<in> set settings \<and> py_get setting ''id'' JNull = Inr i \<and> truthy i \<longrightarrow>
                 (\<exists>rec. custom_addition E i JNull setting = Inr rec \<and>
                        rec \<in> set (s_custom_additions r)))) \<and>
           (list_ex nameless dawn_v15 \<and> \<not> list_ex nameless dawn_v10 \<longrightarrow>
              dawn_section E JNull \<in> set (s_dawn_additions r)) \<and>
           (list_ex nameless dawn_v15 \<and> \<not> list_ex nameless current \<longrightarrow>
              conflict_section E JNull \<in> set (s_conflict_additions r))"
proof -
  from analyze_settings_schema_total [OF assms] obtain r where
    r: "analyze_settings_schema E dawn_v10 current dawn_v15 = Inr r"
    and ids: "list_all entry_id_truthy
             (s_custom_additions r @ s_modifications r @
              s_dawn_additions r @ s_dawn_modifications r @
              s_conflict_additions r @ s_conflict_modifications r)"
    by blast
  have same: "analyze_settings_schema E (map without_idless dawn_v10)
      (map without_idless current) (map without_idless dawn_v15) = Inr r"
    using r by (simp add: analyze_settings_schema_without_idless)
  from r ids same nameless_sections_reported [OF r] show ?thesis by blast
qed

subsection \<open>The order of set iteration\<close>

lemma sum_list_map_mset_cong:
  fixes h k :: "'a \<Rightarrow> 'c :: comm_monoid_add"
  assumes "mset ys = mset xs" and "\<And>x. x \<in> set xs \<Longrightarrow> h x = k x"
  shows "sum_list (map h ys) = sum_list (map k xs)"
proof -
  have "sum_list (map h ys) = sum_mset (image_mset h (mset ys))"
    by (simp only: mset_map [symmetric] sum_mset_sum_list)
  also have "image_mset h (mset ys) = image_mset k (mset xs)"
    unfolding assms(1) by (rule image_mset_cong) (simp add: assms(2))
  also have "sum_mset (image_mset k (mset xs)) = sum_list (map k xs)"
    by (simp only: mset_map [symmetric] sum_mset_sum_list)
  finally show ?thesis .
qed

lemma mapM_r_permuted:
  fixes h :: "'b \<Rightarrow> 'c :: comm_monoid_add" and h' :: "'b \<Rightarrow> 'd :: comm_monoid_add"
  assumes "mset ys = mset xs" and "mapM_r f xs = Inr ps"
    and rel: "\<And>x p. x \<in> set xs \<Longrightarrow> f x = Inr p \<Longrightarrow> \<exists>q. g x = Inr q \<and> h q = h p \<and> h' q = h' p"
  shows "\<exists>qs. mapM_r g ys = Inr qs \<and> sum_list (map h qs) = sum_list (map h ps) \<and>
           sum_list (map h' qs) = sum_list (map h' ps)"
proof -
  let ?F = "\<lambda>x. projr (f x)" and ?G = "\<lambda>x. projr (g x)"
  from assms(2) have fx: "\<forall>x\<in>set xs. \<exists>y. f x = Inr y" and ps: "ps = map ?F xs"
    unfolding mapM_r_Inr_iff by simp_all
  have G: "g x = Inr (?G x) \<and> h (?G x) = h (?F x) \<and> h' (?G x) = h' (?F x)"
    if "x \<in> set xs" for x
  proof -
    from fx that obtain p where p: "f x = Inr p" by blast
    from rel [OF that p] obtain q where "g x = Inr q" "h q = h p" "h' q = h' p" by blast
    with p show ?thesis by simp
  qed
  have sets: "set ys = set xs" using assms(1) by (rule mset_eq_setD)
  have "\<forall>x\<in>set ys. \<exists>y. g x = Inr y"
    unfolding sets using G by blast
  then have 1: "mapM_r g ys = Inr (map ?G ys)"
    unfolding mapM_r_Inr_iff by simp
  have "sum_list (map (\<lambda>x. h (?G x)) ys) = sum_list (map (\<lambda>x. h (?F x)) xs)"
    by (rule sum_list_map_mset_cong [OF assms(1)]) (use G in blast)
  then have 2: "sum_list (map h (map ?G ys)) = sum_list (map h ps)"
    by (simp add: ps comp_def)
  have "sum_list (map (\<lambda>x. h' (?G x)) ys) = sum_list (map (\<lambda>x. h' (?F x)) xs)"
    by (rule sum_list_map_mset_cong [OF assms(1)]) (use G in blast)
  then have 3: "sum_list (map h' (map ?G ys)) = sum_list (map h' ps)"
    by (simp add: ps comp_def)
  from 1 2 3 show ?thesis by blast
qed

lemma mset_concat_map:
  "mset (concat (map f ps)) = sum_list (map (\<lambda>p. mset (f p)) ps)"
  by (induction ps) simp_all

lemma compare_settings_permuted:
  assumes "permuting (set_iter E1)" and "permuting (set_iter E2)"
    and "deep_diff E2 = deep_diff E1"
    and "compare_settings E1 mk_add mk_mod n b c = Inr res1"
  shows "\<exists>res2. compare_settings E2 mk_add mk_mod n b c = Inr res2 \<and>
           fst res2 = fst res1 \<and> mset (snd res2) = mset (snd res1)"
proof -
  let ?fm = "\<lambda>E bs cs setting_id.
               bind_r (jdict_item bs setting_id) (\<lambda>b.
               bind_r (jdict_item cs setting_id) (\<lambda>c.
                 case deep_diff E b c of
                   None \<Rightarrow> Inr []
                 | Some changes \<Rightarrow>
                     bind_r (mk_mod setting_id n b c changes) (\<lambda>r. Inr [r])))"
  from assms(4) obtain bs cs adds mods where
    bs: "settings_by_id b = Inr bs" and cs: "settings_by_id c = Inr cs"
    and adds: "mapM_r (\<lambda>(setting_id, setting).
               if jdict_get bs setting_id = None
               then bind_r (mk_add setting_id n setting) (\<lambda>r. Inr [r])
               else Inr []) cs = Inr adds"
    and mods: "mapM_r (?fm E1 bs cs) (set_iter E1 (keys_and bs cs)) = Inr mods"
    and res1: "res1 = (concat adds, concat mods)"
    unfolding compare_settings_def bind_r_Inr_iff by blast
  have same: "?fm E2 bs cs = ?fm E1 bs cs"
    by (simp add: assms(3))
  have perm: "mset (set_iter E2 (keys_and bs cs)) = mset (set_iter E1 (keys_and bs cs))"
    using assms(1,2) by (simp add: permuting_def)
  have "\<exists>q. ?fm E1 bs cs x = Inr q \<and> mset q = mset p \<and> mset q = mset p"
    if "?fm E1 bs cs x = Inr p" for x p
    using that by blast
  from mapM_r_permuted [OF perm mods, of "?fm E1 bs cs" mset mset, OF this]
  obtain mods2 where
    mods2: "mapM_r (?fm E1 bs cs) (set_iter E2 (keys_and bs cs)) = Inr mods2"
      "sum_list (map mset mods2) = sum_list (map mset mods)"
    by blast
  have "compare_settings E2 mk_add mk_mod n b c = Inr (concat adds, concat mods2)"
    using mods2(1) by (simp add: compare_settings_def bs cs adds assms(3))
  moreover have "mset (concat mods2) = mset (concat mods)"
    using mods2(2) by (simp add: mset_concat)
  ultimately show ?thesis using res1 by simp
qed

lemma common_sections_loop_permuted:
  assumes "permuting (set_iter E1)" and "permuting (set_iter E2)"
    and "deep_diff E2 = deep_diff E1"
    and "common_sections_loop E1 mk_add mk_mod bs cs = Inr res1"
  shows "\<exists>res2. common_sections_loop E2 mk_add mk_mod bs cs = Inr res2 \<and>
           mset (fst res2) = mset (fst res1) \<and> mset (snd res2) = mset (snd res1)"
proof -
  let ?f = "\<lambda>E section_name.
               bind_r (jdict_item bs section_name) (\<lambda>base_section.
               bind_r (jdict_item cs section_name) (\<lambda>compare_section.
               compare_settings E mk_add mk_mod section_name base_section compare_section))"
  from assms(4) obtain ps where
    ps: "mapM_r (?f E1) (set_iter E1 (keys_and bs cs)) = Inr ps"
    and res1: "res1 = (concat (map fst ps), concat (map snd ps))"
    unfolding common_sections_loop_def bind_r_Inr_iff by blast
  have perm: "mset (set_iter E2 (keys_and bs cs)) = mset (set_iter E1 (keys_and bs cs))"
    using assms(1,2) by (simp add: permuting_def)
  have rel: "\<exists>q. ?f E2 x = Inr q \<and> mset (fst q) = mset (fst p) \<and> mset (snd q) = mset (snd p)"
    if "?f E1 x = Inr p" for x p
  proof -
    from that obtain vb vc where
      g: "jdict_item bs x = Inr vb" "jdict_item cs x = Inr vc"
      and c: "compare_settings E1 mk_add mk_mod x vb vc = Inr p"
      unfolding bind_r_Inr_iff by blast
    from compare_settings_permuted [OF assms(1-3) c] obtain q where
      "compare_settings E2 mk_add mk_mod x vb vc = Inr q" "fst q = fst p"
      "mset (snd q) = mset (snd p)" by blast
    with g show ?thesis by simp
  qed
  from mapM_r_permuted [OF perm ps, of "?f E2" "\<lambda>p. mset (fst p)" "\<lambda>p. mset (snd p)", OF rel]
  obtain qs where
    qs: "mapM_r (?f E2) (set_iter E2 (keys_and bs cs)) = Inr qs"
      "sum_list (map (\<lambda>p. mset (fst p)) qs) = sum_list (map (\<lambda>p. mset (fst p)) ps)"
      "sum_list (map (\<lambda>p. mset (snd p)) qs) = sum_list (map (\<lambda>p. mset (snd p)) ps)"
    by blast
  have "common_sections_loop E2 mk_add mk_mod bs cs
          = Inr (concat (map fst qs), concat (map snd qs))"
    using qs(1) by (simp add: common_sections_loop_def)
  moreover have "mset (concat (map fst qs)) = mset (concat (map fst ps))"
    using qs(2) by (simp add: mset_concat_map)
  moreover have "mset (concat (map snd qs)) = mset (concat (map snd ps))"
    using qs(3) by (simp add: mset_concat_map)
  ultimately show ?thesis using res1 by simp
qed

lemma same_describe:
  assumes "py_str E2 = py_str E1"
  shows "describe_by_label E2 = describe_by_label E1"
    and "describe_by_id E2 = describe_by_id E1"
    and "section_record E2 = section_record E1"
  by (intro ext, simp add: describe_by_label_def describe_by_id_def section_record_def assms)+

lemma same_records:
  assumes "py_str E2 = py_str E1"
  shows "custom_addition E2 = custom_addition E1"
    and "custom_modification E2 = custom_modification E1"
    and "dawn_addition E2 = dawn_addition E1"
    and "dawn_modification E2 = dawn_modification E1"
    and "conflict_addition E2 = conflict_addition E1"
    and "conflict_modification E2 = conflict_modification E1"
    and "custom_section E2 = custom_section E1"
    and "dawn_section E2 = dawn_section E1"
    and "conflict_section E2 = conflict_section E1"
  by (intro ext, simp add: custom_addition_def custom_modification_def dawn_addition_def
      dawn_modification_def conflict_addition_def conflict_modification_def
      custom_section_def dawn_section_def conflict_section_def same_describe [OF assms])+

lemma new_section_settings_same:
  assumes "py_str E2 = py_str E1"
  shows "new_section_settings E2 = new_section_settings E1"
  by (intro ext) (simp add: new_section_settings_def same_records(1) [OF assms] cong: if_cong)

lemma custom_sections_loop_same:
  assumes "py_str E2 = py_str E1"
  shows "custom_sections_loop E2 bs cs = custom_sections_loop E1 bs cs"
  by (simp add: custom_sections_loop_def new_section_settings_same [OF assms]
      same_records(7) [OF assms] cong: if_cong)

lemma analyze_settings_schema_steps:
  assumes "analyze_settings_schema E dawn_v10 current dawn_v15 = Inr r"
  obtains t1 t2 t3 v1 v2 v3 s1 s2 s3 c1a c1b c2b c3b where
    "find_theme_info dawn_v10 = Inr t1" "find_theme_info current = Inr t2"
    "find_theme_info dawn_v15 = Inr t3"
    "py_get t1 ''theme_version'' JNull = Inr v1" "py_get t2 ''theme_version'' JNull = Inr v2"
    "py_get t3 ''theme_version'' JNull = Inr v3"
    "sections_by_name dawn_v10 = Inr s1" "sections_by_name current = Inr s2"
    "sections_by_name dawn_v15 = Inr s3"
    "custom_sections_loop E s1 s2 = Inr c1a"
    "common_sections_loop E (custom_addition E) (custom_modification E) s1 s2 = Inr c1b"
    "common_sections_loop E (dawn_addition E) (dawn_modification E) s1 s3 = Inr c2b"
    "common_sections_loop E (conflict_addition E) (conflict_modification E) s2 s3 = Inr c3b"
    "r = \<lparr>s_custom_additions = snd c1a @ fst c1b,
          s_modifications = snd c1b,
          s_removals = [],
          s_custom_sections = fst c1a,
          s_dawn_additions = added_sections_loop (dawn_section E) s1 s3 @ fst c2b,
          s_dawn_modifications = snd c2b,
          s_dawn_removals = [],
          s_conflict_additions = added_sections_loop (conflict_section E) s2 s3 @ fst c3b,
          s_conflict_modifications = snd c3b,
          s_conflict_removals = [],
          theme_info_changes = version_changes v1 v2 v3\<rparr>"
proof -
  from assms obtain t1 t2 t3 v1 v2 v3 s1 s2 s3 c1a c1b c2b c3b where
    a: "find_theme_info dawn_v10 = Inr t1" "find_theme_info current = Inr t2"
    "find_theme_info dawn_v15 = Inr t3"
    "py_get t1 ''theme_version'' JNull = Inr v1" "py_get t2 ''theme_version'' JNull = Inr v2"
    "py_get t3 ''theme_version'' JNull = Inr v3"
    "sections_by_name dawn_v10 = Inr s1" "sections_by_name current = Inr s2"
    "sections_by_name dawn_v15 = Inr s3"
    "custom_sections_loop E s1 s2 = Inr c1a"
    "common_sections_loop E (custom_addition E) (custom_modification E) s1 s2 = Inr c1b"
    "common_sections_loop E (dawn_addition E) (dawn_modification E) s1 s3 = Inr c2b"
    "common_sections_loop E (conflict_addition E) (conflict_modification E) s2 s3 = Inr c3b"
    and r: "Inr \<lparr>s_custom_additions = snd c1a @ fst c1b,
          s_modifications = snd c1b,
          s_removals = [],
          s_custom_sections = fst c1a,
          s_dawn_additions = added_sections_loop (dawn_section E) s1 s3 @ fst c2b,
          s_dawn_modifications = snd c2b,
          s_dawn_removals = [],
          s_conflict_additions = added_sections_loop (conflict_section E) s2 s3 @ fst c3b,
          s_conflict_modifications = snd c3b,
          s_conflict_removals = [],
          theme_info_changes = version_changes v1 v2 v3\<rparr> = (Inr r :: py_error + schema_result)"
    unfolding analyze_settings_schema_def bind_r_Inr_iff by blast
  from r have "r = \<lparr>s_custom_additions = snd c1a @ fst c1b,
          s_modifications = snd c1b,
          s_removals = [],
          s_custom_sections = fst c1a,
          s_dawn_additions = added_sections_loop (dawn_section E) s1 s3 @ fst c2b,
          s_dawn_modifications = snd c2b,
          s_dawn_removals = [],
          s_conflict_additions = added_sections_loop (conflict_section E) s2 s3 @ fst c3b,
          s_conflict_modifications = snd c3b,
          s_conflict_removals = [],
          theme_info_changes = version_changes v1 v2 v3\<rparr>"
    by simp
  with a show ?thesis by (rule that)
qed

text \<open>
  C8 (as amended).  The output is a function of the three snapshots and of the order in
  which the interpreter iterates the sets of common section names and setting ids.  Two
  runs on the same snapshots whose iteration orders differ both return, or both raise;
  their results have the same custom_sections and theme_info_changes, and each list of
  additions and of modifications holds the same records the same number of times,
  possibly in another order.
\<close>

theorem output_up_to_set_order:
  assumes "permuting (set_iter E1)" and "permuting (set_iter E2)"
    and "py_str E2 = py_str E1" and "deep_diff E2 = deep_diff E1"
    and "analyze_settings_schema E1 dawn_v10 current dawn_v15 = Inr r1"
  shows "\<exists>r2. analyze_settings_schema E2 dawn_v10 current dawn_v15 = Inr r2 \<and>
           s_custom_sections r2 = s_custom_sections r1 \<and>
           theme_info_changes r2 = theme_info_changes r1 \<and>
           mset (s_custom_additions r2) = mset (s_custom_additions r1) \<and>
           mset (s_modifications r2) = mset (s_modifications r1) \<and>
           mset (s_dawn_additions r2) = mset (s_dawn_additions r1) \<and>
           mset (s_dawn_modifications r2) = mset (s_dawn_modifications r1) \<and>
           mset (s_conflict_additions r2) = mset (s_conflict_additions r1) \<and>
           mset (s_conflict_modifications r2) = mset (s_conflict_modifications r1) \<and>
           s_removals r2 = s_removals r1 \<and> s_dawn_removals r2 = s_dawn_removals r1 \<and>
           s_conflict_removals r2 = s_conflict_removals r1"
proof -
  note same = same_records [OF assms(3)]
  from analyze_settings_schema_steps [OF assms(5)]
  obtain t1 t2 t3 v1 v2 v3 s1 s2 s3 c1a c1b c2b c3b where
    t: "find_theme_info dawn_v10 = Inr t1" "find_theme_info current = Inr t2"
      "find_theme_info dawn_v15 = Inr t3"
    and v: "py_get t1 ''theme_version'' JNull = Inr v1"
      "py_get t2 ''theme_version'' JNull = Inr v2" "py_get t3 ''theme_version'' JNull = Inr v3"
    and s: "sections_by_name dawn_v10 = Inr s1" "sections_by_name current = Inr s2"
      "sections_by_name dawn_v15 = Inr s3"
    and c1a: "custom_sections_loop E1 s1 s2 = Inr c1a"
    and c1b: "common_sections_loop E1 (custom_addition E1) (custom_modification E1) s1 s2
                = Inr c1b"
    and c2b: "common_sections_loop E1 (dawn_addition E1) (dawn_modification E1) s1 s3 = Inr c2b"
    and c3b: "common_sections_loop E1 (conflict_addition E1) (conflict_modification E1) s2 s3
                = Inr c3b"
    and r1: "r1 = \<lparr>s_custom_additions = snd c1a @ fst c1b,
          s_modifications = snd c1b,
          s_removals = [],
          s_custom_sections = fst c1a,
          s_dawn_additions = added_sections_loop (dawn_section E1) s1 s3 @ fst c2b,
          s_dawn_modifications = snd c2b,
          s_dawn_removals = [],
          s_conflict_additions = added_sections_loop (conflict_section E1) s2 s3 @ fst c3b,
          s_conflict_modifications = snd c3b,
          s_conflict_removals = [],
          theme_info_changes = version_changes v1 v2 v3\<rparr>"
    by blast
  have d1a: "custom_sections_loop E2 s1 s2 = Inr c1a"
    using c1a by (simp add: custom_sections_loop_same [OF assms(3)])
  from common_sections_loop_permuted [OF assms(1,2,4) c1b] obtain d1b where
    d1b: "common_sections_loop E2 (custom_addition E1) (custom_modification E1) s1 s2 = Inr d1b"
      "mset (fst d1b) = mset (fst c1b)" "mset (snd d1b) = mset (snd c1b)" by blast
  from common_sections_loop_permuted [OF assms(1,2,4) c2b] obtain d2b where
    d2b: "common_sections_loop E2 (dawn_addition E1) (dawn_modification E1) s1 s3 = Inr d2b"
      "mset (fst d2b) = mset (fst c2b)" "mset (snd d2b) = mset (snd c2b)" by blast
  from common_sections_loop_permuted [OF assms(1,2,4) c3b] obtain d3b where
    d3b: "common_sections_loop E2 (conflict_addition E1) (conflict_modification E1) s2 s3
            = Inr d3b"
      "mset (fst d3b) = mset (fst c3b)" "mset (snd d3b) = mset (snd c3b)" by blast
  have "analyze_settings_schema E2 dawn_v10 current dawn_v15 =
      Inr \<lparr>s_custom_additions = snd c1a @ fst d1b,
          s_modifications = snd d1b,
          s_removals = [],
          s_custom_sections = fst c1a,
          s_dawn_additions = added_sections_loop (dawn_section E1) s1 s3 @ fst d2b,
          s_dawn_modifications = snd d2b,
          s_dawn_removals = [],
          s_conflict_additions = added_sections_loop (conflict_section E1) s2 s3 @ fst d3b,
          s_conflict_modifications = snd d3b,
          s_conflict_removals = [],
          theme_info_changes = version_changes v1 v2 v3\<rparr>"
    unfolding analyze_settings_schema_def same
    by (simp add: t v s d1a d1b(1) d2b(1) d3b(1))
  then show ?thesis
    unfolding r1 using d1b(2,3) d2b(2,3) d3b(2,3) by simp
qed

subsection \<open>Instances and examples\<close>

theorem new_section_records_witness:
  "\<exists>r. analyze_settings_schema example_env []
         [example_section ''a'' [''x'']]
         [example_section ''a'' [''x''], example_section ''b'' [''y'']] = Inr r \<and>
       custom_section example_env (JStr ''a'') \<in> set (s_custom_sections r) \<and>
       (\<exists>rec. custom_addition example_env (JStr ''x'') (JStr ''a'') (example_setting ''x'')
                = Inr rec \<and> rec \<in> set (s_custom_additions r)) \<and>
       dawn_section example_env (JStr ''a'') \<in> set (s_dawn_additions r) \<and>
       dawn_section example_env (JStr ''b'') \<in> set (s_dawn_additions r) \<and>
       (\<exists>rec. dawn_addition example_env (JStr ''y'') (JStr ''b'') (example_setting ''y'')
                = Inr rec \<and> rec \<notin> set (s_dawn_additions r)) \<and>
       conflict_section example_env (JStr ''b'') \<in> set (s_conflict_additions r) \<and>
       (\<exists>rec. conflict_addition example_env (JStr ''y'') (JStr ''b'') (example_setting ''y'')
                = Inr rec \<and> rec \<notin> set (s_conflict_additions r))"
proof -
  let ?a = "example_section ''a'' [''x'']" and ?b = "example_section ''b'' [''y'']"
  let ?r = "projr (analyze_settings_schema example_env [] [?a] [?a, ?b])"
  let ?d = "dawn_addition example_env (JStr ''y'') (JStr ''b'') (example_setting ''y'')"
  let ?c = "conflict_addition example_env (JStr ''y'') (JStr ''b'') (example_setting ''y'')"
  have run: "analyze_settings_schema example_env [] [?a] [?a, ?b] = Inr ?r"
    by code_simp
  have s1: "sections_by_name [] = Inr []"
    by (simp add: sections_by_name_def)
  have s2: "sections_by_name [?a] = Inr [(JStr ''a'', ?a)]"
    by code_simp
  have s3: "sections_by_name [?a, ?b] = Inr [(JStr ''a'', ?a), (JStr ''b'', ?b)]"
    by code_simp
  have st: "section_settings ?a = Inr [example_setting ''x'']"
    by code_simp
  have i: "py_get (example_setting ''x'') ''id'' JNull = Inr (JStr ''x'')"
    by code_simp
  have n: "jdict_get [(JStr ''a'', ?a)] (JStr ''b'') = None"
    by code_simp
  have d: "?d = Inr (projr ?d)"
    by code_simp
  have c: "?c = Inr (projr ?c)"
    by code_simp
  note a = new_section_records [OF run s1 s2 s3, of "JStr ''a''" ?a]
  note b = new_section_records [OF run s1 s2 s3, of "JStr ''b''" ?b]
  from a st i have
    "custom_section example_env (JStr ''a'') \<in> set (s_custom_sections ?r)"
    "\<exists>rec. custom_addition example_env (JStr ''x'') (JStr ''a'') (example_setting ''x'')
                = Inr rec \<and> rec \<in> set (s_custom_additions ?r)"
    "dawn_section example_env (JStr ''a'') \<in> set (s_dawn_additions ?r)"
    by simp_all
  moreover from b n have
    "dawn_section example_env (JStr ''b'') \<in> set (s_dawn_additions ?r)"
    "conflict_section example_env (JStr ''b'') \<in> set (s_conflict_additions ?r)"
    by simp_all
  moreover from b n d have "projr ?d \<notin> set (s_dawn_additions ?r)"
    by simp
  moreover from b n c have "projr ?c \<notin> set (s_conflict_additions ?r)"
    by simp
  ultimately show ?thesis using run d c by blast
qed

theorem new_section_records_counterexample:
  "analyze_settings_schema example_env [] [] [example_section ''colors'' [''bg'']] =
     Inr \<lparr>s_custom_additions = [], s_modifications = [], s_removals = [],
          s_custom_sections = [],
          s_dawn_additions = [dawn_section example_env (JStr ''colors'')],
          s_dawn_modifications = [], s_dawn_removals = [],
          s_conflict_additions = [conflict_section example_env (JStr ''colors'')],
          s_conflict_modifications = [], s_conflict_removals = [],
          theme_info_changes = []\<rparr>"
  by code_simp

theorem comparator_total_on_well_shaped_witness:
  "list_all ws_section [example_section ''a'' [''x''], JObj [(''name'', JStr ''theme_info'')]] \<and>
   list_all ws_section
     [JObj [(''name'', JStr ''a''),
            (''settings'', JArr [JObj [(''type'', JStr ''header'')], example_setting ''y''])],
      JObj [(''settings'', JArr [example_setting ''z''])]] \<and>
   list_all ws_section [example_section ''b'' [''z'']] \<and>
   permuting (set_iter example_env) \<and>
   (\<exists>r. analyze_settings_schema example_env
          [example_section ''a'' [''x''], JObj [(''name'', JStr ''theme_info'')]]
          [JObj [(''name'', JStr ''a''),
                 (''settings'', JArr [JObj [(''type'', JStr ''header'')], example_setting ''y''])],
           JObj [(''settings'', JArr [example_setting ''z''])]]
          [example_section ''b'' [''z'']] = Inr r \<and>
        list_all entry_id_truthy
          (s_custom_additions r @ s_modifications r @
           s_dawn_additions r @ s_dawn_modifications r @
           s_conflict_additions r @ s_conflict_modifications r) \<and>
        analyze_settings_schema example_env
          [example_section ''a'' [''x''], JObj [(''name'', JStr ''theme_info'')]]
          [example_section ''a'' [''y''], JObj [(''settings'', JArr [example_setting ''z''])]]
          [example_section ''b'' [''z'']] = Inr r \<and>
        custom_section example_env JNull \<in> set (s_custom_sections r) \<and>
        (\<exists>rec. custom_addition example_env (JStr ''z'') JNull (example_setting ''z'') = Inr rec \<and>
               rec \<in> set (s_custom_additions r)))"
proof -
  let ?v10 = "[example_section ''a'' [''x''], JObj [(''name'', JStr ''theme_info'')]]"
  let ?cur = "[JObj [(''name'', JStr ''a''),
            (''settings'', JArr [JObj [(''type'', JStr ''header'')], example_setting ''y''])],
      JObj [(''settings'', JArr [example_setting ''z''])]]"
  let ?v15 = "[example_section ''b'' [''z'']]"
  have 1: "list_all ws_section ?v10"
    by code_simp
  have 2: "list_all ws_section ?cur"
    by code_simp
  have 3: "list_all ws_section ?v15"
    by code_simp
  have 4: "permuting (set_iter example_env)"
    by (simp add: permuting_def example_env_def)
  have w1: "map without_idless ?v10 = ?v10"
    by code_simp
  have w2: "map without_idless ?cur =
      [example_section ''a'' [''y''], JObj [(''settings'', JArr [example_setting ''z''])]]"
    by code_simp
  have w3: "map without_idless ?v15 = ?v15"
    by code_simp
  have n1: "list_ex nameless ?cur"
    by code_simp
  have n2: "\<not> list_ex nameless ?v10"
    by code_simp
  have n3: "section_settings (last (filter nameless ?cur)) = Inr [example_setting ''z'']"
    by code_simp
  have n4: "py_get (example_setting ''z'') ''id'' JNull = Inr (JStr ''z'')"
    by code_simp
  from comparator_total_on_well_shaped [OF 1 2 3 4] obtain r where
    r: "analyze_settings_schema example_env ?v10 ?cur ?v15 = Inr r"
    "list_all entry_id_truthy
          (s_custom_additions r @ s_modifications r @
           s_dawn_additions r @ s_dawn_modifications r @
           s_conflict_additions r @ s_conflict_modifications r)"
    "analyze_settings_schema example_env (map without_idless ?v10) (map without_idless ?cur)
       (map without_idless ?v15) = Inr r"
    and nl: "list_ex nameless ?cur \<and> \<not> list_ex nameless ?v10 \<longrightarrow>
              custom_section example_env JNull \<in> set (s_custom_sections r) \<and>
              (\<forall>settings setting i.
                 section_settings (last (filter nameless ?cur)) = Inr settings \<and>
                 setting \<in> set settings \<and> py_get setting ''id'' JNull = Inr i \<and> truthy i \<longrightarrow>
                 (\<exists>rec. custom_addition example_env i JNull setting = Inr rec \<and>
                        rec \<in> set (s_custom_additions r)))"
    by blast
  from nl n1 n2 have s: "custom_section example_env JNull \<in> set (s_custom_sections r)"
    and e: "\<forall>settings setting i.
                 section_settings (last (filter nameless ?cur)) = Inr settings \<and>
                 setting \<in> set settings \<and> py_get setting ''id'' JNull = Inr i \<and> truthy i \<longrightarrow>
                 (\<exists>rec. custom_addition example_env i JNull setting = Inr rec \<and>
                        rec \<in> set (s_custom_additions r))"
    by blast+
  from e n3 n4 have
    "\<exists>rec. custom_addition example_env (JStr ''z'') JNull (example_setting ''z'') = Inr rec \<and>
               rec \<in> set (s_custom_additions r)"
    by simp
  with r s 1 2 3 4 show ?thesis
    unfolding w1 w2 w3 by blast
qed

theorem comparator_total_counterexample:
  "analyze_settings_schema example_env []
     [JObj [(''name'', JStr ''a''), (''settings'', JArr [JNum 1])]] [] = Inl AttributeError \<and>
   analyze_settings_schema example_env [] [JObj [(''name'', JArr [])]] [] = Inl TypeError \<and>
   analyze_settings_schema example_env []
     [JObj [(''settings'', JArr [example_setting ''x''])]] [] =
     Inr \<lparr>s_custom_additions =
            [JObj [(''id'', JStr ''x''), (''section'', JNull),
                   (''comparison'', JStr ''v10_upstream_vs_v10_custom''),
                   (''type'', JNull), (''label'', JStr []),
                   (''description'', JStr ''Custom setting in None: x'')]],
          s_modifications = [], s_removals = [],
          s_custom_sections = [custom_section example_env JNull],
          s_dawn_additions = [], s_dawn_modifications = [], s_dawn_removals = [],
          s_conflict_additions = [], s_conflict_modifications = [],
          s_conflict_removals = [],
          theme_info_changes = []\<rparr>"
  by code_simp

theorem output_up_to_set_order_witness:
  "permuting (set_iter example_env) \<and> permuting (set_iter example_env_rev) \<and>
   py_str example_env_rev = py_str example_env \<and>
   deep_diff example_env_rev = deep_diff example_env \<and>
   (\<exists>r1 r2.
      analyze_settings_schema example_env
        [example_section ''a'' [''x''], example_section ''b'' [''x'']]
        [example_section ''a'' [''x'', ''y''], example_section ''b'' [''x'', ''z'']] [] = Inr r1 \<and>
      analyze_settings_schema example_env_rev
        [example_section ''a'' [''x''], example_section ''b'' [''x'']]
        [example_section ''a'' [''x'', ''y''], example_section ''b'' [''x'', ''z'']] [] = Inr r2 \<and>
      s_custom_sections r2 = s_custom_sections r1 \<and>
      mset (s_custom_additions r2) = mset (s_custom_additions r1) \<and>
      mset (s_modifications r2) = mset (s_modifications r1))"
proof -
  let ?v10 = "[example_section ''a'' [''x''], example_section ''b'' [''x'']]"
  let ?cur = "[example_section ''a'' [''x'', ''y''], example_section ''b'' [''x'', ''z'']]"
  have 1: "permuting (set_iter example_env)"
    by (simp add: permuting_def example_env_def)
  have 2: "permuting (set_iter example_env_rev)"
    by (simp add: permuting_def example_env_rev_def)
  have 3: "py_str example_env_rev = py_str example_env"
    by (simp add: example_env_rev_def)
  have 4: "deep_diff example_env_rev = deep_diff example_env"
    by (simp add: example_env_rev_def)
  have 5: "analyze_settings_schema example_env ?v10 ?cur [] =
             Inr (projr (analyze_settings_schema example_env ?v10 ?cur []))"
    by code_simp
  from output_up_to_set_order [OF 1 2 3 4 5] 1 2 3 4 5 show ?thesis by blast
qed

theorem output_order_counterexample:
  "permuting (set_iter example_env) \<and> permuting (set_iter example_env_rev) \<and>
   py_str example_env_rev = py_str example_env \<and>
   deep_diff example_env_rev = deep_diff example_env \<and>
   map (\<lambda>r. py_get r ''id'' JNull)
     (s_custom_additions (projr (analyze_settings_schema example_env
        [example_section ''a'' [''x''], example_section ''b'' [''x'']]
        [example_section ''a'' [''x'', ''y''], example_section ''b'' [''x'', ''z'']] [])))
     = [Inr (JStr ''y''), Inr (JStr ''z'')] \<and>
   map (\<lambda>r. py_get r ''id'' JNull)
     (s_custom_additions (projr (analyze_settings_schema example_env_rev
        [example_section ''a'' [''x''], example_section ''b'' [''x'']]
        [example_section ''a'' [''x'', ''y''], example_section ''b'' [''x'', ''z'']] [])))
     = [Inr (JStr ''z''), Inr (JStr ''y'')] \<and>
   analyze_settings_schema example_env
        [example_section ''a'' [''x''], example_section ''b'' [''x'']]
        [example_section ''a'' [''x'', ''y''], example_section ''b'' [''x'', ''z'']] []
     \<noteq> analyze_settings_schema example_env_rev
        [example_section ''a'' [''x''], example_section ''b'' [''x'']]
        [example_section ''a'' [''x'', ''y''], example_section ''b'' [''x'', ''z'']] []"
proof -
  let ?v10 = "[example_section ''a'' [''x''], example_section ''b'' [''x'']]"
  let ?cur = "[example_section ''a'' [''x'', ''y''], example_section ''b'' [''x'', ''z'']]"
  have 1: "permuting (set_iter example_env)"
    by (simp add: permuting_def example_env_def)
  have 2: "permuting (set_iter example_env_rev)"
    by (simp add: permuting_def example_env_rev_def)
  have 3: "py_str example_env_rev = py_str example_env"
    by (simp add: example_env_rev_def)
  have 4: "deep_diff example_env_rev = deep_diff example_env"
    by (simp add: example_env_rev_def)
  have 5: "map (\<lambda>r. py_get r ''id'' JNull)
     (s_custom_additions (projr (analyze_settings_schema example_env ?v10 ?cur [])))
     = [Inr (JStr ''y''), Inr (JStr ''z'')]"
    by code_simp
  have 6: "map (\<lambda>r. py_get r ''id'' JNull)
     (s_custom_additions (projr (analyze_settings_schema example_env_rev ?v10 ?cur [])))
     = [Inr (JStr ''z''), Inr (JStr ''y'')]"
    by code_simp
  from 5 6 have 7: "analyze_settings_schema example_env ?v10 ?cur []
     \<noteq> analyze_settings_schema example_env_rev ?v10 ?cur []"
    by auto
  from 1 2 3 4 5 6 7 show ?thesis by blast
qed

end
